theory Spec2Isabelle
  imports Main "HOL-Library.AList" "HOL-Library.Multiset"
begin

section \<open>Rolling restart of a Postgres cluster: the command \<open>postgres restart\<close>\<close>

text \<open>
  The command resolves an application, checks that it is a Postgres cluster, and then
  restarts the Postgres process of every member, through one of two paths selected by the
  application's platform version: \<open>nomad\<close> (no leases) and \<open>machines\<close> (one lease per
  machine, taken before the first restart).

  Everything the command does is a call to a collaborator (the web API, the flaps client,
  the agent, the per-node Postgres client) or a line printed to the output stream. The
  model makes these calls explicit: a run is a function from the collaborators (record
  \<open>env\<close>) to the error the command returns and the chronological list of the calls it made
  (\<open>event list\<close>), each with the result it got.
\<close>

subsection \<open>Errors\<close>

text \<open>
  A Go \<open>error\<close>: the text of \<open>Error()\<close> and the error that \<open>Unwrap()\<close> gives, if any.
  A function returning \<open>error\<close> returns \<open>error option\<close> here, \<open>None\<close> being \<open>nil\<close>;
  a function returning \<open>(T, error)\<close> returns \<open>error + T\<close>.
\<close>

datatype error = Err (msg: string) (unwrap: "error option")

text \<open>\<open>fmt.Errorf(prefix + "%w", err)\<close>: the texts are concatenated and \<open>err\<close> is wrapped.\<close>

definition Errorf_w :: "string \<Rightarrow> error \<Rightarrow> error" where
  "Errorf_w prefix err = Err (prefix @ msg err) (Some err)"

text \<open>\<open>fmt.Errorf(prefix + "%s", err)\<close>: the texts are concatenated, nothing is wrapped.\<close>

definition Errorf_s :: "string \<Rightarrow> error \<Rightarrow> error" where
  "Errorf_s prefix err = Err (prefix @ msg err) None"

text \<open>\<open>fmt.Errorf(text)\<close> without an error argument.\<close>

definition Errorf :: "string \<Rightarrow> error" where
  "Errorf text = Err text None"

subsection \<open>Data\<close>

text \<open>
  The fields of \<open>api.AppCompact\<close>, \<open>api.Machine\<close> and \<open>api.AllocationStatus\<close> that the
  command reads. \<open>IsPostgresApp\<close> is a method of \<open>api.AppCompact\<close> in the source; its
  value is a field here. \<open>OrganizationSlug\<close> is \<open>app.Organization.Slug\<close>.
\<close>

record AppCompact =
  Name :: string
  PlatformVersion :: string
  OrganizationSlug :: string
  IsPostgresApp :: bool

record Machine =
  ID :: string
  PrivateIP :: string

record AllocationStatus =
  vm_ID :: string
  vm_PrivateIP :: string

text \<open>Handles returned by the agent: the agent client and the dialer (the tunnel).\<close>

type_synonym agentclient = nat
type_synonym dialer = nat

subsection \<open>Calls and their results\<close>

text \<open>
  One event per call to a collaborator, in the order of the calls, with the arguments and
  the result. \<open>EvRestartNodePG\<close> also records the ID of the machine or allocation the
  loop is at: the call itself gets the address and the dialer only.
\<close>

datatype event =
    EvGetAppCompact string "error + AppCompact"
  | EvHasRequiredVersionOnNomad "error option"
  | EvAgentEstablish "error + agentclient"
  | EvDialer string "error + dialer"
  | EvFetchLeader dialer "error + Machine"
  | EvHasRequiredVersionOnMachines Machine "error option"
  | EvEstablishForApp "error option"
  | EvList string "error + Machine list"
  | EvGetLease string nat "error + string"
  | EvGetAppStatus string "error + AllocationStatus list"
  | EvRestartNodePG string string dialer "error option"
  | EvPrint string

text \<open>
  The collaborators. Each is a function of the calls made so far in the run, so that a
  collaborator may answer the same question differently at different times.

  \<open>hasRequiredVersionOnNomad\<close>, \<open>fetchLeader\<close> and \<open>hasRequiredVersionOnMachines\<close> are
  functions of the same package whose code is outside the files at hand; they are
  parameters like the rest. \<open>GetLease\<close> returns \<open>lease.Data.Nonce\<close>, the one field of the
  lease the command reads.

  \<open>mapRange\<close> is the order in which \<open>for lease, machine := range machines\<close> visits the
  entries of the map: Go leaves it unspecified, and promises only that every entry is
  visited once (see \<open>range_visits_once\<close>).
\<close>

record env =
  GetAppCompact :: "event list \<Rightarrow> string \<Rightarrow> error + AppCompact"
  hasRequiredVersionOnNomad :: "event list \<Rightarrow> AppCompact \<Rightarrow> string \<Rightarrow> string \<Rightarrow> error option"
  agent_Establish :: "event list \<Rightarrow> error + agentclient"
  agent_Dialer :: "event list \<Rightarrow> agentclient \<Rightarrow> string \<Rightarrow> error + dialer"
  fetchLeader :: "event list \<Rightarrow> AppCompact \<Rightarrow> dialer \<Rightarrow> error + Machine"
  hasRequiredVersionOnMachines :: "event list \<Rightarrow> Machine \<Rightarrow> string \<Rightarrow> string \<Rightarrow> error option"
  flaps_EstablishForApp :: "event list \<Rightarrow> AppCompact \<Rightarrow> error option"
  flaps_List :: "event list \<Rightarrow> string \<Rightarrow> error + Machine list"
  flaps_GetLease :: "event list \<Rightarrow> string \<Rightarrow> nat \<Rightarrow> error + string"
  GetAppStatus :: "event list \<Rightarrow> string \<Rightarrow> error + AllocationStatus list"
  RestartNodePG :: "event list \<Rightarrow> string \<Rightarrow> dialer \<Rightarrow> error option"
  mapRange :: "(string \<times> Machine) list \<Rightarrow> (string \<times> Machine) list"

definition range_visits_once :: "env \<Rightarrow> bool" where
  "range_visits_once env \<longleftrightarrow> (\<forall>m. mset (mapRange env m) = mset m)"

subsection \<open>The machines path\<close>

text \<open>
  The map \<open>machines\<close> from lease nonce to machine is an association list with distinct
  keys; \<open>machines[nonce] = machine\<close> is \<open>AList.update\<close>, which replaces the value of a key
  that is present.

  \<open>acquireLeases\<close> is the first loop of \<open>restartMachinesCluster\<close>.
\<close>

fun acquireLeases ::
  "env \<Rightarrow> Machine list \<Rightarrow> (string \<times> Machine) list \<Rightarrow> event list \<Rightarrow>
    (error + (string \<times> Machine) list) \<times> event list" where
  "acquireLeases env [] machines tr = (Inr machines, tr)"
| "acquireLeases env (machine # out) machines tr =
     (let r = flaps_GetLease env tr (ID machine) 40;
          tr' = tr @ [EvGetLease (ID machine) 40 r]
      in case r of
           Inl err \<Rightarrow> (Inl (Errorf_w ''failed to obtain lease: '' err), tr')
         | Inr nonce \<Rightarrow> acquireLeases env out (AList.update nonce machine machines) tr')"

text \<open>The second loop of \<open>restartMachinesCluster\<close>, over the entries in range order.\<close>

fun restartMachines ::
  "env \<Rightarrow> dialer \<Rightarrow> (string \<times> Machine) list \<Rightarrow> event list \<Rightarrow> error option \<times> event list" where
  "restartMachines env d [] tr = (None, tr)"
| "restartMachines env d ((lease, machine) # rest) tr =
     (let tr1 = tr @ [EvPrint ('' Restarting '' @ ID machine @ '' with lease '' @ lease @ [CHR 0x0A])];
          address = ''['' @ PrivateIP machine @ '']'';
          r = RestartNodePG env tr1 address d;
          tr2 = tr1 @ [EvRestartNodePG (ID machine) address d r]
      in case r of
           Some err \<Rightarrow> (Some (Errorf_w ''failed to restart postgres on node: '' err), tr2)
         | None \<Rightarrow> restartMachines env d rest tr2)"

definition restartMachinesCluster ::
  "env \<Rightarrow> AppCompact \<Rightarrow> event list \<Rightarrow> error option \<times> event list" where
  "restartMachinesCluster env app tr =
     (let r1 = flaps_EstablishForApp env tr app;
          tr1 = tr @ [EvEstablishForApp r1]
      in case r1 of
           Some err \<Rightarrow> (Some err, tr1)
         | None \<Rightarrow>
     (let r2 = flaps_List env tr1 ''started'';
          tr2 = tr1 @ [EvList ''started'' r2]
      in case r2 of
           Inl err \<Rightarrow> (Some (Errorf_w ''machines could not be retrieved '' err), tr2)
         | Inr out \<Rightarrow>
     (let tr3 = tr2 @ [EvPrint (''Acquiring lease on postgres cluster'' @ [CHR 0x0A])]
      in case acquireLeases env out [] tr3 of
           (Inl err, tr4) \<Rightarrow> (Some err, tr4)
         | (Inr machines, tr4) \<Rightarrow>
     if length out = 0 then (Some (Errorf ''no machines found''), tr4)
     else
     (let r5 = agent_Establish env tr4;
          tr5 = tr4 @ [EvAgentEstablish r5]
      in case r5 of
           Inl err \<Rightarrow> (Some (Errorf_w ''can't establish agent '' err), tr5)
         | Inr agentclient \<Rightarrow>
     (let r6 = agent_Dialer env tr5 agentclient (OrganizationSlug app);
          tr6 = tr5 @ [EvDialer (OrganizationSlug app) r6]
      in case r6 of
           Inl err \<Rightarrow>
             (Some (Errorf_s (''can't build tunnel for '' @ OrganizationSlug app @ '': '') err), tr6)
         | Inr d \<Rightarrow>
     (let tr7 = tr6 @ [EvPrint (''Restarting Postgres'' @ [CHR 0x0A])]
      in case restartMachines env d (mapRange env machines) tr7 of
           (Some err, tr8) \<Rightarrow> (Some err, tr8)
         | (None, tr8) \<Rightarrow> (None, tr8 @ [EvPrint (''Restart complete'' @ [CHR 0x0A])])))))))"

subsection \<open>The nomad path\<close>

fun restartVMs ::
  "env \<Rightarrow> dialer \<Rightarrow> AllocationStatus list \<Rightarrow> event list \<Rightarrow> error option \<times> event list" where
  "restartVMs env d [] tr = (None, tr)"
| "restartVMs env d (vm # vms) tr =
     (let tr1 = tr @ [EvPrint ('' Restarting '' @ vm_ID vm @ [CHR 0x0A])];
          address = ''['' @ vm_PrivateIP vm @ '']'';
          r = RestartNodePG env tr1 address d;
          tr2 = tr1 @ [EvRestartNodePG (vm_ID vm) address d r]
      in case r of
           Some err \<Rightarrow> (Some (Errorf_w ''failed to restart postgres on node: '' err), tr2)
         | None \<Rightarrow> restartVMs env d vms tr2)"

definition restartNomadCluster ::
  "env \<Rightarrow> AppCompact \<Rightarrow> event list \<Rightarrow> error option \<times> event list" where
  "restartNomadCluster env app tr =
     (let r1 = GetAppStatus env tr (Name app);
          tr1 = tr @ [EvGetAppStatus (Name app) r1]
      in case r1 of
           Inl err \<Rightarrow> (Some (Errorf_w ''get app status: '' err), tr1)
         | Inr allocations \<Rightarrow>
     (let vms = [] @ allocations
      in if length vms = 0 then (Some (Errorf ''no vms found''), tr1)
     else
     (let r2 = agent_Establish env tr1;
          tr2 = tr1 @ [EvAgentEstablish r2]
      in case r2 of
           Inl err \<Rightarrow> (Some (Errorf_w ''can't establish agent '' err), tr2)
         | Inr agentclient \<Rightarrow>
     (let r3 = agent_Dialer env tr2 agentclient (OrganizationSlug app);
          tr3 = tr2 @ [EvDialer (OrganizationSlug app) r3]
      in case r3 of
           Inl err \<Rightarrow>
             (Some (Errorf_s (''can't build tunnel for '' @ OrganizationSlug app @ '': '') err), tr3)
         | Inr d \<Rightarrow>
     (let tr4 = tr3 @ [EvPrint (''Restarting Postgres'' @ [CHR 0x0A])]
      in case restartVMs env d vms tr4 of
           (Some err, tr5) \<Rightarrow> (Some err, tr5)
         | (None, tr5) \<Rightarrow> (None, tr5 @ [EvPrint (''Restart complete'' @ [CHR 0x0A])]))))))"

subsection \<open>The entry point\<close>

definition runRestart :: "env \<Rightarrow> string \<Rightarrow> error option \<times> event list" where
  "runRestart env appName =
     (let MinPostgresHaVersion = ''0.0.20'';
          r0 = GetAppCompact env [] appName;
          tr0 = [EvGetAppCompact appName r0]
      in case r0 of
           Inl err \<Rightarrow> (Some (Errorf_w ''get app: '' err), tr0)
         | Inr app \<Rightarrow>
     if \<not> IsPostgresApp app
     then (Some (Errorf (''app '' @ Name app @ '' is not a Postgres app'')), tr0)
     else if PlatformVersion app = ''nomad'' then
       (let r1 = hasRequiredVersionOnNomad env tr0 app MinPostgresHaVersion MinPostgresHaVersion;
            tr1 = tr0 @ [EvHasRequiredVersionOnNomad r1]
        in case r1 of
             Some err \<Rightarrow> (Some err, tr1)
           | None \<Rightarrow> restartNomadCluster env app tr1)
     else if PlatformVersion app = ''machines'' then
       (let r1 = agent_Establish env tr0;
            tr1 = tr0 @ [EvAgentEstablish r1]
        in case r1 of
             Inl err \<Rightarrow> (Some (Errorf_w ''can't establish agent '' err), tr1)
           | Inr agentclient \<Rightarrow>
       (let r2 = agent_Dialer env tr1 agentclient (OrganizationSlug app);
            tr2 = tr1 @ [EvDialer (OrganizationSlug app) r2]
        in case r2 of
             Inl err \<Rightarrow>
               (Some (Errorf_s (''can't build tunnel for '' @ OrganizationSlug app @ '': '') err), tr2)
           | Inr d \<Rightarrow>
       (let r3 = fetchLeader env tr2 app d;
            tr3 = tr2 @ [EvFetchLeader d r3]
        in case r3 of
             Inl err \<Rightarrow> (Some (Errorf_w ''can't fetch leader: '' err), tr3)
           | Inr leader \<Rightarrow>
       (let r4 = hasRequiredVersionOnMachines env tr3 leader MinPostgresHaVersion MinPostgresHaVersion;
            tr4 = tr3 @ [EvHasRequiredVersionOnMachines leader r4]
        in case r4 of
             Some err \<Rightarrow> (Some err, tr4)
           | None \<Rightarrow> restartMachinesCluster env app tr4))))
     else (None, tr0))"

section \<open>Reading a trace\<close>

text \<open>The kinds of call the properties below are about.\<close>

fun isLease :: "event \<Rightarrow> bool" where
  "isLease (EvGetLease _ _ _) = True"
| "isLease _ = False"

fun isRestart :: "event \<Rightarrow> bool" where
  "isRestart (EvRestartNodePG _ _ _ _) = True"
| "isRestart _ = False"

text \<open>A tunnel is established by the call \<open>agentclient.Dialer\<close>.\<close>

fun isDialer :: "event \<Rightarrow> bool" where
  "isDialer (EvDialer _ _) = True"
| "isDialer _ = False"

fun isAgent :: "event \<Rightarrow> bool" where
  "isAgent (EvAgentEstablish _) = True"
| "isAgent _ = False"

fun isVersionCheck :: "event \<Rightarrow> bool" where
  "isVersionCheck (EvHasRequiredVersionOnNomad _) = True"
| "isVersionCheck (EvHasRequiredVersionOnMachines _ _) = True"
| "isVersionCheck _ = False"

fun errOf :: "error + 'a \<Rightarrow> error option" where
  "errOf (Inl e) = Some e"
| "errOf (Inr _) = None"

text \<open>The error a call returned, if it failed.\<close>

fun failed :: "event \<Rightarrow> error option" where
  "failed (EvGetAppCompact _ r) = errOf r"
| "failed (EvHasRequiredVersionOnNomad r) = r"
| "failed (EvAgentEstablish r) = errOf r"
| "failed (EvDialer _ r) = errOf r"
| "failed (EvFetchLeader _ r) = errOf r"
| "failed (EvHasRequiredVersionOnMachines _ r) = r"
| "failed (EvEstablishForApp r) = r"
| "failed (EvList _ r) = errOf r"
| "failed (EvGetLease _ _ r) = errOf r"
| "failed (EvGetAppStatus _ r) = errOf r"
| "failed (EvRestartNodePG _ _ _ r) = r"
| "failed (EvPrint _) = None"

text \<open>
  The error the command returns when a call fails: the \<open>fmt.Errorf\<close> (or the plain
  \<open>return err\<close>) that follows the call in the source. The node ID of a lease or restart
  call is not an argument of any of them.
\<close>

fun surfaced :: "event \<Rightarrow> error option" where
  "surfaced (EvGetAppCompact _ r) = map_option (Errorf_w ''get app: '') (errOf r)"
| "surfaced (EvHasRequiredVersionOnNomad r) = r"
| "surfaced (EvAgentEstablish r) = map_option (Errorf_w ''can't establish agent '') (errOf r)"
| "surfaced (EvDialer slug r) =
     map_option (Errorf_s (''can't build tunnel for '' @ slug @ '': '')) (errOf r)"
| "surfaced (EvFetchLeader _ r) = map_option (Errorf_w ''can't fetch leader: '') (errOf r)"
| "surfaced (EvHasRequiredVersionOnMachines _ r) = r"
| "surfaced (EvEstablishForApp r) = r"
| "surfaced (EvList _ r) = map_option (Errorf_w ''machines could not be retrieved '') (errOf r)"
| "surfaced (EvGetLease _ _ r) = map_option (Errorf_w ''failed to obtain lease: '') (errOf r)"
| "surfaced (EvGetAppStatus _ r) = map_option (Errorf_w ''get app status: '') (errOf r)"
| "surfaced (EvRestartNodePG _ _ _ r) =
     map_option (Errorf_w ''failed to restart postgres on node: '') r"
| "surfaced (EvPrint _) = None"

text \<open>The nonces of the leases granted, and the IDs of the nodes sent a restart command.\<close>

primrec noncesOf :: "event list \<Rightarrow> string list" where
  "noncesOf [] = []"
| "noncesOf (e # tr) =
     (case e of EvGetLease _ _ (Inr nonce) \<Rightarrow> nonce # noncesOf tr | _ \<Rightarrow> noncesOf tr)"

primrec restarted :: "event list \<Rightarrow> string list" where
  "restarted [] = []"
| "restarted (e # tr) =
     (case e of EvRestartNodePG nid _ _ _ \<Rightarrow> nid # restarted tr | _ \<Rightarrow> restarted tr)"

section \<open>The shape of a run\<close>

text \<open>
  The traces the three functions can produce, one rule per way out of the function.
  These describe the runs; the lemmas \<open>restartMachinesCluster_trace\<close>,
  \<open>restartNomadCluster_trace\<close> and \<open>runRestart_trace\<close> show that every run of the
  functions above has one of these shapes.
\<close>

definition leaseEvents :: "Machine list \<Rightarrow> string list \<Rightarrow> event list" where
  "leaseEvents out nonces =
     map2 (\<lambda>machine nonce. EvGetLease (ID machine) 40 (Inr nonce)) out nonces"

text \<open>The map after \<open>machines[nonce] = machine\<close> for each machine and its nonce, in order.\<close>

definition putAll ::
  "string list \<Rightarrow> Machine list \<Rightarrow> (string \<times> Machine) list \<Rightarrow> (string \<times> Machine) list" where
  "putAll nonces out m = fold (\<lambda>(nonce, machine). AList.update nonce machine) (zip nonces out) m"

definition stepM :: "dialer \<Rightarrow> error option \<Rightarrow> string \<times> Machine \<Rightarrow> event list" where
  "stepM d r = (\<lambda>(lease, machine).
     [EvPrint ('' Restarting '' @ ID machine @ '' with lease '' @ lease @ [CHR 0x0A]),
      EvRestartNodePG (ID machine) (''['' @ PrivateIP machine @ '']'') d r])"

definition stepV :: "dialer \<Rightarrow> error option \<Rightarrow> AllocationStatus \<Rightarrow> event list" where
  "stepV d r vm =
     [EvPrint ('' Restarting '' @ vm_ID vm @ [CHR 0x0A]),
      EvRestartNodePG (vm_ID vm) (''['' @ vm_PrivateIP vm @ '']'') d r]"

definition listed :: "Machine list \<Rightarrow> event list" where
  "listed out =
     [EvEstablishForApp None, EvList ''started'' (Inr out),
      EvPrint (''Acquiring lease on postgres cluster'' @ [CHR 0x0A])]"

definition tunnel :: "AppCompact \<Rightarrow> agentclient \<Rightarrow> dialer \<Rightarrow> event list" where
  "tunnel app a d =
     [EvAgentEstablish (Inr a), EvDialer (OrganizationSlug app) (Inr d),
      EvPrint (''Restarting Postgres'' @ [CHR 0x0A])]"

definition complete :: "event list" where
  "complete = [EvPrint (''Restart complete'' @ [CHR 0x0A])]"

definition tunnelError :: "AppCompact \<Rightarrow> error \<Rightarrow> error" where
  "tunnelError app c = Errorf_s (''can't build tunnel for '' @ OrganizationSlug app @ '': '') c"

definition leaderChecked ::
  "AppCompact \<Rightarrow> agentclient \<Rightarrow> dialer \<Rightarrow> Machine \<Rightarrow> error option \<Rightarrow> event list" where
  "leaderChecked app a d leader r =
     [EvAgentEstablish (Inr a), EvDialer (OrganizationSlug app) (Inr d),
      EvFetchLeader d (Inr leader), EvHasRequiredVersionOnMachines leader r]"

inductive machinesTrace :: "env \<Rightarrow> AppCompact \<Rightarrow> error option \<Rightarrow> event list \<Rightarrow> bool"
  for env :: env and app :: AppCompact where
  mt_flaps: "res = Some c \<Longrightarrow> E = [EvEstablishForApp (Some c)] \<Longrightarrow> machinesTrace env app res E"
| mt_list: "res = Some (Errorf_w ''machines could not be retrieved '' c) \<Longrightarrow>
     E = [EvEstablishForApp None, EvList ''started'' (Inl c)] \<Longrightarrow> machinesTrace env app res E"
| mt_lease: "k < length out \<Longrightarrow> length nonces = k \<Longrightarrow>
     res = Some (Errorf_w ''failed to obtain lease: '' c) \<Longrightarrow>
     E = listed out @ leaseEvents (take k out) nonces @ [EvGetLease (ID (out ! k)) 40 (Inl c)] \<Longrightarrow>
     machinesTrace env app res E"
| mt_empty: "res = Some (Errorf ''no machines found'') \<Longrightarrow> E = listed [] \<Longrightarrow>
     machinesTrace env app res E"
| mt_agent: "out \<noteq> [] \<Longrightarrow> length nonces = length out \<Longrightarrow>
     res = Some (Errorf_w ''can't establish agent '' c) \<Longrightarrow>
     E = listed out @ leaseEvents out nonces @ [EvAgentEstablish (Inl c)] \<Longrightarrow>
     machinesTrace env app res E"
| mt_dialer: "out \<noteq> [] \<Longrightarrow> length nonces = length out \<Longrightarrow>
     res = Some (tunnelError app c) \<Longrightarrow>
     E = listed out @ leaseEvents out nonces @
         [EvAgentEstablish (Inr a), EvDialer (OrganizationSlug app) (Inl c)] \<Longrightarrow>
     machinesTrace env app res E"
| mt_restart: "out \<noteq> [] \<Longrightarrow> length nonces = length out \<Longrightarrow>
     ms = mapRange env (putAll nonces out []) \<Longrightarrow> k < length ms \<Longrightarrow>
     res = Some (Errorf_w ''failed to restart postgres on node: '' c) \<Longrightarrow>
     E = listed out @ leaseEvents out nonces @ tunnel app a d @
         concat (map (stepM d None) (take k ms)) @ stepM d (Some c) (ms ! k) \<Longrightarrow>
     machinesTrace env app res E"
| mt_complete: "out \<noteq> [] \<Longrightarrow> length nonces = length out \<Longrightarrow>
     ms = mapRange env (putAll nonces out []) \<Longrightarrow>
     res = None \<Longrightarrow>
     E = listed out @ leaseEvents out nonces @ tunnel app a d @
         concat (map (stepM d None) ms) @ complete \<Longrightarrow>
     machinesTrace env app res E"

inductive nomadTrace :: "env \<Rightarrow> AppCompact \<Rightarrow> error option \<Rightarrow> event list \<Rightarrow> bool"
  for env :: env and app :: AppCompact where
  nt_status: "res = Some (Errorf_w ''get app status: '' c) \<Longrightarrow>
     E = [EvGetAppStatus (Name app) (Inl c)] \<Longrightarrow> nomadTrace env app res E"
| nt_empty: "res = Some (Errorf ''no vms found'') \<Longrightarrow>
     E = [EvGetAppStatus (Name app) (Inr [])] \<Longrightarrow> nomadTrace env app res E"
| nt_agent: "vms \<noteq> [] \<Longrightarrow> res = Some (Errorf_w ''can't establish agent '' c) \<Longrightarrow>
     E = [EvGetAppStatus (Name app) (Inr vms), EvAgentEstablish (Inl c)] \<Longrightarrow>
     nomadTrace env app res E"
| nt_dialer: "vms \<noteq> [] \<Longrightarrow> res = Some (tunnelError app c) \<Longrightarrow>
     E = [EvGetAppStatus (Name app) (Inr vms), EvAgentEstablish (Inr a),
          EvDialer (OrganizationSlug app) (Inl c)] \<Longrightarrow>
     nomadTrace env app res E"
| nt_restart: "vms \<noteq> [] \<Longrightarrow> k < length vms \<Longrightarrow>
     res = Some (Errorf_w ''failed to restart postgres on node: '' c) \<Longrightarrow>
     E = EvGetAppStatus (Name app) (Inr vms) # tunnel app a d @
         concat (map (stepV d None) (take k vms)) @ stepV d (Some c) (vms ! k) \<Longrightarrow>
     nomadTrace env app res E"
| nt_complete: "vms \<noteq> [] \<Longrightarrow> res = None \<Longrightarrow>
     E = EvGetAppStatus (Name app) (Inr vms) # tunnel app a d @
         concat (map (stepV d None) vms) @ complete \<Longrightarrow>
     nomadTrace env app res E"

inductive runTrace :: "env \<Rightarrow> string \<Rightarrow> error option \<Rightarrow> event list \<Rightarrow> bool"
  for env :: env and appName :: string where
  rt_getapp: "res = Some (Errorf_w ''get app: '' c) \<Longrightarrow>
     tr = [EvGetAppCompact appName (Inl c)] \<Longrightarrow> runTrace env appName res tr"
| rt_notpg: "\<not> IsPostgresApp app \<Longrightarrow>
     res = Some (Errorf (''app '' @ Name app @ '' is not a Postgres app'')) \<Longrightarrow>
     tr = [EvGetAppCompact appName (Inr app)] \<Longrightarrow> runTrace env appName res tr"
| rt_nomad_version: "IsPostgresApp app \<Longrightarrow> PlatformVersion app = ''nomad'' \<Longrightarrow>
     res = Some c \<Longrightarrow>
     tr = [EvGetAppCompact appName (Inr app), EvHasRequiredVersionOnNomad (Some c)] \<Longrightarrow>
     runTrace env appName res tr"
| rt_nomad: "IsPostgresApp app \<Longrightarrow> PlatformVersion app = ''nomad'' \<Longrightarrow>
     nomadTrace env app res E \<Longrightarrow>
     tr = [EvGetAppCompact appName (Inr app), EvHasRequiredVersionOnNomad None] @ E \<Longrightarrow>
     runTrace env appName res tr"
| rt_agent: "IsPostgresApp app \<Longrightarrow> PlatformVersion app = ''machines'' \<Longrightarrow>
     res = Some (Errorf_w ''can't establish agent '' c) \<Longrightarrow>
     tr = [EvGetAppCompact appName (Inr app), EvAgentEstablish (Inl c)] \<Longrightarrow>
     runTrace env appName res tr"
| rt_dialer: "IsPostgresApp app \<Longrightarrow> PlatformVersion app = ''machines'' \<Longrightarrow>
     res = Some (tunnelError app c) \<Longrightarrow>
     tr = [EvGetAppCompact appName (Inr app), EvAgentEstablish (Inr a),
           EvDialer (OrganizationSlug app) (Inl c)] \<Longrightarrow>
     runTrace env appName res tr"
| rt_leader: "IsPostgresApp app \<Longrightarrow> PlatformVersion app = ''machines'' \<Longrightarrow>
     res = Some (Errorf_w ''can't fetch leader: '' c) \<Longrightarrow>
     tr = [EvGetAppCompact appName (Inr app), EvAgentEstablish (Inr a),
           EvDialer (OrganizationSlug app) (Inr d), EvFetchLeader d (Inl c)] \<Longrightarrow>
     runTrace env appName res tr"
| rt_machines_version: "IsPostgresApp app \<Longrightarrow> PlatformVersion app = ''machines'' \<Longrightarrow>
     res = Some c \<Longrightarrow>
     tr = EvGetAppCompact appName (Inr app) # leaderChecked app a d leader (Some c) \<Longrightarrow>
     runTrace env appName res tr"
| rt_machines: "IsPostgresApp app \<Longrightarrow> PlatformVersion app = ''machines'' \<Longrightarrow>
     machinesTrace env app res E \<Longrightarrow>
     tr = EvGetAppCompact appName (Inr app) # leaderChecked app a d leader None @ E \<Longrightarrow>
     runTrace env appName res tr"
| rt_other: "IsPostgresApp app \<Longrightarrow> PlatformVersion app \<noteq> ''nomad'' \<Longrightarrow>
     PlatformVersion app \<noteq> ''machines'' \<Longrightarrow> res = None \<Longrightarrow>
     tr = [EvGetAppCompact appName (Inr app)] \<Longrightarrow> runTrace env appName res tr"

section \<open>Example clusters\<close>

text \<open>
  The cluster \<open>pgtest\<close> of organization \<open>acme\<close> with the nodes A, B and C, on a
  given platform, where every collaborator succeeds: the lease of a machine has the nonce
  \<open>lease-\<close> followed by the machine ID, every call of \<open>Dialer\<close> returns a new handle
  (the number of tunnels built before), and the map is visited in reverse insertion order.
  The examples below change one collaborator at a time.
\<close>

definition demoApp :: "string \<Rightarrow> AppCompact" where
  "demoApp platform =
     \<lparr>Name = ''pgtest'', PlatformVersion = platform, OrganizationSlug = ''acme'',
      IsPostgresApp = True\<rparr>"

definition nodeA :: Machine where "nodeA = \<lparr>ID = ''A'', PrivateIP = ''fdaa::a''\<rparr>"
definition nodeB :: Machine where "nodeB = \<lparr>ID = ''B'', PrivateIP = ''fdaa::b''\<rparr>"
definition nodeC :: Machine where "nodeC = \<lparr>ID = ''C'', PrivateIP = ''fdaa::c''\<rparr>"

definition vmA :: AllocationStatus where "vmA = \<lparr>vm_ID = ''A'', vm_PrivateIP = ''fdaa::a''\<rparr>"
definition vmB :: AllocationStatus where "vmB = \<lparr>vm_ID = ''B'', vm_PrivateIP = ''fdaa::b''\<rparr>"
definition vmC :: AllocationStatus where "vmC = \<lparr>vm_ID = ''C'', vm_PrivateIP = ''fdaa::c''\<rparr>"

definition demoEnv :: "string \<Rightarrow> env" where
  "demoEnv platform =
     \<lparr>GetAppCompact = (\<lambda>tr name. Inr (demoApp platform)),
      hasRequiredVersionOnNomad = (\<lambda>tr app v w. None),
      agent_Establish = (\<lambda>tr. Inr 0),
      agent_Dialer = (\<lambda>tr a slug. Inr (length (filter isDialer tr))),
      fetchLeader = (\<lambda>tr app d. Inr nodeA),
      hasRequiredVersionOnMachines = (\<lambda>tr leader v w. None),
      flaps_EstablishForApp = (\<lambda>tr app. None),
      flaps_List = (\<lambda>tr state. Inr [nodeA, nodeB, nodeC]),
      flaps_GetLease = (\<lambda>tr mid ttl. Inr (''lease-'' @ mid)),
      GetAppStatus = (\<lambda>tr name. Inr [vmA, vmB, vmC]),
      RestartNodePG = (\<lambda>tr address d. None),
      mapRange = rev\<rparr>"

text \<open>An application that is not a Postgres cluster.\<close>

definition plainApp :: AppCompact where
  "plainApp = (demoApp ''machines'')\<lparr>Name := ''webapp'', IsPostgresApp := False\<rparr>"

definition plainEnv :: env where
  "plainEnv = (demoEnv ''machines'')\<lparr>GetAppCompact := \<lambda>tr name. Inr plainApp\<rparr>"

text \<open>An application that is not a Postgres cluster, on a platform that is neither
  \<open>nomad\<close> nor \<open>machines\<close>.\<close>

definition strayApp :: AppCompact where
  "strayApp = (demoApp ''detached'')\<lparr>Name := ''webapp'', IsPostgresApp := False\<rparr>"

definition strayEnv :: env where
  "strayEnv = (demoEnv ''detached'')\<lparr>GetAppCompact := \<lambda>tr name. Inr strayApp\<rparr>"

text \<open>Examples where one collaborator fails or one answer is unusual.\<close>

definition leaseDenied :: "string \<Rightarrow> env" where
  "leaseDenied mid = (demoEnv ''machines'')
     \<lparr>flaps_GetLease := \<lambda>tr m ttl.
        if m = mid then Inl (Err ''lease is held'' None) else Inr (''lease-'' @ m)\<rparr>"

definition nodeDown :: "string \<Rightarrow> string \<Rightarrow> env" where
  "nodeDown platform address = (demoEnv platform)
     \<lparr>RestartNodePG := \<lambda>tr a d. if a = address then Some (Err ''unreachable'' None) else None\<rparr>"

definition tooOld :: "string \<Rightarrow> env" where
  "tooOld platform = (demoEnv platform)
     \<lparr>hasRequiredVersionOnNomad := \<lambda>tr app v w. Some (Err ''image is too old'' None),
      hasRequiredVersionOnMachines := \<lambda>tr leader v w. Some (Err ''image is too old'' None)\<rparr>"

definition emptyCluster :: "string \<Rightarrow> env" where
  "emptyCluster platform = (demoEnv platform)
     \<lparr>flaps_List := \<lambda>tr state. Inr [], GetAppStatus := \<lambda>tr name. Inr []\<rparr>"

text \<open>Two machines get the same lease nonce.\<close>

definition sharedNonce :: env where
  "sharedNonce = (demoEnv ''machines'')
     \<lparr>flaps_GetLease := \<lambda>tr mid ttl. Inr (if mid = ''C'' then ''lease-2'' else ''lease-1'')\<rparr>"

section \<open>Every run has one of the shapes\<close>

lemma acquireLeases_events:
  "acquireLeases env out m tr = (r, tr') \<Longrightarrow>
     (\<exists>nonces. length nonces = length out \<and> r = Inr (putAll nonces out m) \<and>
        tr' = tr @ leaseEvents out nonces) \<or>
     (\<exists>k nonces c. k < length out \<and> length nonces = k \<and>
        r = Inl (Errorf_w ''failed to obtain lease: '' c) \<and>
        tr' = tr @ leaseEvents (take k out) nonces @ [EvGetLease (ID (out ! k)) 40 (Inl c)])"
proof (induction out arbitrary: m tr)
  case Nil
  then show ?case by (simp add: leaseEvents_def putAll_def)
next
  case (Cons machine out)
  show ?case
  proof (cases "flaps_GetLease env tr (ID machine) 40")
    case (Inl c)
    with Cons.prems have "r = Inl (Errorf_w ''failed to obtain lease: '' c)"
      and "tr' = tr @ [EvGetLease (ID machine) 40 (Inl c)]" by auto
    then have "0 < length (machine # out) \<and> length ([]::string list) = 0 \<and>
        r = Inl (Errorf_w ''failed to obtain lease: '' c) \<and>
        tr' = tr @ leaseEvents (take 0 (machine # out)) [] @ [EvGetLease (ID ((machine # out) ! 0)) 40 (Inl c)]"
      by (simp add: leaseEvents_def)
    then show ?thesis by blast
  next
    case (Inr nonce)
    let ?tr1 = "tr @ [EvGetLease (ID machine) 40 (Inr nonce)]"
    from Cons.prems Inr have rec: "acquireLeases env out (AList.update nonce machine m) ?tr1 = (r, tr')"
      by simp
    from Cons.IH [OF rec] show ?thesis
    proof
      assume "\<exists>nonces. length nonces = length out \<and> r = Inr (putAll nonces out (AList.update nonce machine m)) \<and>
        tr' = ?tr1 @ leaseEvents out nonces"
      then obtain nonces where n: "length nonces = length out"
        "r = Inr (putAll nonces out (AList.update nonce machine m))"
        "tr' = ?tr1 @ leaseEvents out nonces" by blast
      then have "length (nonce # nonces) = length (machine # out) \<and>
         r = Inr (putAll (nonce # nonces) (machine # out) m) \<and>
         tr' = tr @ leaseEvents (machine # out) (nonce # nonces)"
        by (simp add: leaseEvents_def putAll_def)
      then show ?thesis by blast
    next
      assume "\<exists>k nonces c. k < length out \<and> length nonces = k \<and>
        r = Inl (Errorf_w ''failed to obtain lease: '' c) \<and>
        tr' = ?tr1 @ leaseEvents (take k out) nonces @ [EvGetLease (ID (out ! k)) 40 (Inl c)]"
      then obtain k nonces c where n: "k < length out" "length nonces = k"
        "r = Inl (Errorf_w ''failed to obtain lease: '' c)"
        "tr' = ?tr1 @ leaseEvents (take k out) nonces @ [EvGetLease (ID (out ! k)) 40 (Inl c)]" by blast
      then have "Suc k < length (machine # out) \<and> length (nonce # nonces) = Suc k \<and>
        r = Inl (Errorf_w ''failed to obtain lease: '' c) \<and>
        tr' = tr @ leaseEvents (take (Suc k) (machine # out)) (nonce # nonces) @ [EvGetLease (ID ((machine # out) ! Suc k)) 40 (Inl c)]"
        by (simp add: leaseEvents_def)
      then show ?thesis by blast
    qed
  qed
qed

lemma restartMachines_events:
  "restartMachines env d ms tr = (r, tr') \<Longrightarrow>
     (r = None \<and> tr' = tr @ concat (map (stepM d None) ms)) \<or>
     (\<exists>k c. k < length ms \<and> r = Some (Errorf_w ''failed to restart postgres on node: '' c) \<and>
        tr' = tr @ concat (map (stepM d None) (take k ms)) @ stepM d (Some c) (ms ! k))"
proof (induction ms arbitrary: tr)
  case Nil
  then show ?case by simp
next
  case (Cons p ms)
  obtain lease machine where p: "p = (lease, machine)" by (cases p)
  let ?tr1 = "tr @ [EvPrint ('' Restarting '' @ ID machine @ '' with lease '' @ lease @ [CHR 0x0A])]"
  let ?a = "''['' @ PrivateIP machine @ '']''"
  show ?case
  proof (cases "RestartNodePG env ?tr1 ?a d")
    case (Some c)
    with Cons.prems p have "0 < length (p # ms) \<and> r = Some (Errorf_w ''failed to restart postgres on node: '' c) \<and>
        tr' = tr @ concat (map (stepM d None) (take 0 (p # ms))) @ stepM d (Some c) ((p # ms) ! 0)"
      by (auto simp: stepM_def)
    then show ?thesis by blast
  next
    case None
    with Cons.prems p have rec: "restartMachines env d ms (tr @ stepM d None p) = (r, tr')"
      by (simp add: stepM_def)
    from Cons.IH [OF rec] show ?thesis
    proof
      assume "r = None \<and> tr' = (tr @ stepM d None p) @ concat (map (stepM d None) ms)"
      then show ?thesis by simp
    next
      assume "\<exists>k c. k < length ms \<and> r = Some (Errorf_w ''failed to restart postgres on node: '' c) \<and>
        tr' = (tr @ stepM d None p) @ concat (map (stepM d None) (take k ms)) @ stepM d (Some c) (ms ! k)"
      then obtain k c where "k < length ms" "r = Some (Errorf_w ''failed to restart postgres on node: '' c)"
        "tr' = (tr @ stepM d None p) @ concat (map (stepM d None) (take k ms)) @ stepM d (Some c) (ms ! k)"
        by blast
      then have "Suc k < length (p # ms) \<and> r = Some (Errorf_w ''failed to restart postgres on node: '' c) \<and>
        tr' = tr @ concat (map (stepM d None) (take (Suc k) (p # ms))) @ stepM d (Some c) ((p # ms) ! Suc k)"
        by simp
      then show ?thesis by blast
    qed
  qed
qed

lemma restartVMs_events:
  "restartVMs env d vms tr = (r, tr') \<Longrightarrow>
     (r = None \<and> tr' = tr @ concat (map (stepV d None) vms)) \<or>
     (\<exists>k c. k < length vms \<and> r = Some (Errorf_w ''failed to restart postgres on node: '' c) \<and>
        tr' = tr @ concat (map (stepV d None) (take k vms)) @ stepV d (Some c) (vms ! k))"
proof (induction vms arbitrary: tr)
  case Nil
  then show ?case by simp
next
  case (Cons vm vms)
  let ?tr1 = "tr @ [EvPrint ('' Restarting '' @ vm_ID vm @ [CHR 0x0A])]"
  let ?a = "''['' @ vm_PrivateIP vm @ '']''"
  show ?case
  proof (cases "RestartNodePG env ?tr1 ?a d")
    case (Some c)
    with Cons.prems have "0 < length (vm # vms) \<and> r = Some (Errorf_w ''failed to restart postgres on node: '' c) \<and>
        tr' = tr @ concat (map (stepV d None) (take 0 (vm # vms))) @ stepV d (Some c) ((vm # vms) ! 0)"
      by (auto simp: stepV_def)
    then show ?thesis by blast
  next
    case None
    with Cons.prems have rec: "restartVMs env d vms (tr @ stepV d None vm) = (r, tr')"
      by (simp add: stepV_def)
    from Cons.IH [OF rec] show ?thesis
    proof
      assume "r = None \<and> tr' = (tr @ stepV d None vm) @ concat (map (stepV d None) vms)"
      then show ?thesis by simp
    next
      assume "\<exists>k c. k < length vms \<and> r = Some (Errorf_w ''failed to restart postgres on node: '' c) \<and>
        tr' = (tr @ stepV d None vm) @ concat (map (stepV d None) (take k vms)) @ stepV d (Some c) (vms ! k)"
      then obtain k c where "k < length vms" "r = Some (Errorf_w ''failed to restart postgres on node: '' c)"
        "tr' = (tr @ stepV d None vm) @ concat (map (stepV d None) (take k vms)) @ stepV d (Some c) (vms ! k)"
        by blast
      then have "Suc k < length (vm # vms) \<and> r = Some (Errorf_w ''failed to restart postgres on node: '' c) \<and>
        tr' = tr @ concat (map (stepV d None) (take (Suc k) (vm # vms))) @ stepV d (Some c) ((vm # vms) ! Suc k)"
        by simp
      then show ?thesis by blast
    qed
  qed
qed

lemma restartMachinesCluster_trace:
  assumes "restartMachinesCluster env app tr = (res, tr')"
  shows "\<exists>E. tr' = tr @ E \<and> machinesTrace env app res E"
proof (cases "flaps_EstablishForApp env tr app")
  case (Some c)
  with assms have "tr' = tr @ [EvEstablishForApp (Some c)]" "res = Some c"
    by (auto simp: restartMachinesCluster_def Let_def)
  then show ?thesis by (blast intro: mt_flaps)
next
  case f: None
  let ?tr1 = "tr @ [EvEstablishForApp None]"
  show ?thesis
  proof (cases "flaps_List env ?tr1 ''started''")
    case (Inl c)
    with assms f have "tr' = tr @ [EvEstablishForApp None, EvList ''started'' (Inl c)]"
      "res = Some (Errorf_w ''machines could not be retrieved '' c)"
      by (auto simp: restartMachinesCluster_def Let_def)
    then show ?thesis by (blast intro: mt_list)
  next
    case l: (Inr out)
    let ?tr3 = "tr @ listed out"
    obtain r4 tr4 where a: "acquireLeases env out [] ?tr3 = (r4, tr4)"
      by (cases "acquireLeases env out [] ?tr3")
    from acquireLeases_events [OF a] show ?thesis
    proof
      assume "\<exists>k nonces c. k < length out \<and> length nonces = k \<and>
        r4 = Inl (Errorf_w ''failed to obtain lease: '' c) \<and>
        tr4 = ?tr3 @ leaseEvents (take k out) nonces @ [EvGetLease (ID (out ! k)) 40 (Inl c)]"
      then obtain k nonces c where k: "k < length out" "length nonces = k"
        and r4: "r4 = Inl (Errorf_w ''failed to obtain lease: '' c)"
        and tr4: "tr4 = ?tr3 @ leaseEvents (take k out) nonces @ [EvGetLease (ID (out ! k)) 40 (Inl c)]"
        by blast
      from assms f l a r4 have "res = Some (Errorf_w ''failed to obtain lease: '' c)" "tr' = tr4"
        by (auto simp: restartMachinesCluster_def Let_def listed_def)
      with tr4 have "tr' = tr @ listed out @ leaseEvents (take k out) nonces @ [EvGetLease (ID (out ! k)) 40 (Inl c)]"
        by simp
      with k \<open>res = _\<close> show ?thesis by (blast intro: mt_lease)
    next
      assume "\<exists>nonces. length nonces = length out \<and> r4 = Inr (putAll nonces out []) \<and>
        tr4 = ?tr3 @ leaseEvents out nonces"
      then obtain nonces where n: "length nonces = length out"
        and r4: "r4 = Inr (putAll nonces out [])"
        and tr4: "tr4 = tr @ listed out @ leaseEvents out nonces" by auto
      show ?thesis
      proof (cases "out = []")
        case True
        with assms f l a r4 tr4 n have "res = Some (Errorf ''no machines found'')" "tr' = tr @ listed []"
          by (auto simp: restartMachinesCluster_def Let_def listed_def leaseEvents_def)
        then show ?thesis by (blast intro: mt_empty)
      next
        case ne: False
        show ?thesis
        proof (cases "agent_Establish env tr4")
          case (Inl c)
          with assms f l a r4 ne have "res = Some (Errorf_w ''can't establish agent '' c)"
            "tr' = tr4 @ [EvAgentEstablish (Inl c)]"
            by (auto simp: restartMachinesCluster_def Let_def listed_def)
          with tr4 have "res = Some (Errorf_w ''can't establish agent '' c)"
            "tr' = tr @ listed out @ leaseEvents out nonces @ [EvAgentEstablish (Inl c)]" by simp_all
          with ne n show ?thesis by (blast intro: mt_agent)
        next
          case ag: (Inr agentclient)
          let ?tr5 = "tr4 @ [EvAgentEstablish (Inr agentclient)]"
          show ?thesis
          proof (cases "agent_Dialer env ?tr5 agentclient (OrganizationSlug app)")
            case (Inl c)
            with assms f l a r4 ne ag have "res = Some (tunnelError app c)"
              "tr' = tr4 @ [EvAgentEstablish (Inr agentclient), EvDialer (OrganizationSlug app) (Inl c)]"
              by (auto simp: restartMachinesCluster_def Let_def listed_def tunnelError_def)
            with tr4 have "res = Some (tunnelError app c)"
              "tr' = tr @ listed out @ leaseEvents out nonces @
                 [EvAgentEstablish (Inr agentclient), EvDialer (OrganizationSlug app) (Inl c)]" by simp_all
            with ne n show ?thesis by (blast intro: mt_dialer)
          next
            case di: (Inr d)
            let ?tr7 = "tr4 @ tunnel app agentclient d"
            let ?ms = "mapRange env (putAll nonces out [])"
            obtain r8 tr8 where b: "restartMachines env d ?ms ?tr7 = (r8, tr8)"
              by (cases "restartMachines env d ?ms ?tr7")
            from restartMachines_events [OF b] show ?thesis
            proof
              assume s: "r8 = None \<and> tr8 = ?tr7 @ concat (map (stepM d None) ?ms)"
              with assms f l a r4 ne ag di b have "res = None" "tr' = tr8 @ complete"
                by (auto simp: restartMachinesCluster_def Let_def listed_def tunnel_def complete_def)
              with s tr4 have "res = None"
                "tr' = tr @ listed out @ leaseEvents out nonces @ tunnel app agentclient d @
                  concat (map (stepM d None) ?ms) @ complete" by simp_all
              with ne n show ?thesis by (blast intro: mt_complete)
            next
              assume "\<exists>k c. k < length ?ms \<and> r8 = Some (Errorf_w ''failed to restart postgres on node: '' c) \<and>
                tr8 = ?tr7 @ concat (map (stepM d None) (take k ?ms)) @ stepM d (Some c) (?ms ! k)"
              then obtain k c where k: "k < length ?ms"
                and r8: "r8 = Some (Errorf_w ''failed to restart postgres on node: '' c)"
                and tr8: "tr8 = ?tr7 @ concat (map (stepM d None) (take k ?ms)) @ stepM d (Some c) (?ms ! k)"
                by blast
              from assms f l a r4 ne ag di b r8 have "res = Some (Errorf_w ''failed to restart postgres on node: '' c)"
                "tr' = tr8"
                by (auto simp: restartMachinesCluster_def Let_def listed_def tunnel_def)
              with tr8 tr4 have "res = Some (Errorf_w ''failed to restart postgres on node: '' c)"
                "tr' = tr @ listed out @ leaseEvents out nonces @ tunnel app agentclient d @
                  concat (map (stepM d None) (take k ?ms)) @ stepM d (Some c) (?ms ! k)" by simp_all
              with ne n k show ?thesis by (blast intro: mt_restart)
            qed
          qed
        qed
      qed
    qed
  qed
qed

lemma restartNomadCluster_trace:
  assumes "restartNomadCluster env app tr = (res, tr')"
  shows "\<exists>E. tr' = tr @ E \<and> nomadTrace env app res E"
proof (cases "GetAppStatus env tr (Name app)")
  case (Inl c)
  with assms have "res = Some (Errorf_w ''get app status: '' c)"
    "tr' = tr @ [EvGetAppStatus (Name app) (Inl c)]"
    by (auto simp: restartNomadCluster_def Let_def)
  then show ?thesis by (blast intro: nt_status)
next
  case st: (Inr vms)
  let ?tr1 = "tr @ [EvGetAppStatus (Name app) (Inr vms)]"
  show ?thesis
  proof (cases "vms = []")
    case True
    with assms st have "res = Some (Errorf ''no vms found'')"
      "tr' = tr @ [EvGetAppStatus (Name app) (Inr [])]"
      by (auto simp: restartNomadCluster_def Let_def)
    then show ?thesis by (blast intro: nt_empty)
  next
    case ne: False
    show ?thesis
    proof (cases "agent_Establish env ?tr1")
      case (Inl c)
      with assms st ne have "res = Some (Errorf_w ''can't establish agent '' c)"
        "tr' = tr @ [EvGetAppStatus (Name app) (Inr vms), EvAgentEstablish (Inl c)]"
        by (auto simp: restartNomadCluster_def Let_def)
      with ne show ?thesis by (blast intro: nt_agent)
    next
      case ag: (Inr agentclient)
      let ?tr2 = "?tr1 @ [EvAgentEstablish (Inr agentclient)]"
      show ?thesis
      proof (cases "agent_Dialer env ?tr2 agentclient (OrganizationSlug app)")
        case (Inl c)
        with assms st ne ag have "res = Some (tunnelError app c)"
          "tr' = tr @ [EvGetAppStatus (Name app) (Inr vms), EvAgentEstablish (Inr agentclient),
             EvDialer (OrganizationSlug app) (Inl c)]"
          by (auto simp: restartNomadCluster_def Let_def tunnelError_def)
        with ne show ?thesis by (blast intro: nt_dialer)
      next
        case di: (Inr d)
        let ?tr4 = "?tr1 @ tunnel app agentclient d"
        obtain r5 tr5 where b: "restartVMs env d vms ?tr4 = (r5, tr5)"
          by (cases "restartVMs env d vms ?tr4")
        from restartVMs_events [OF b] show ?thesis
        proof
          assume s: "r5 = None \<and> tr5 = ?tr4 @ concat (map (stepV d None) vms)"
          with assms st ne ag di b have "res = None" "tr' = tr5 @ complete"
            by (auto simp: restartNomadCluster_def Let_def tunnel_def complete_def)
          with s have "res = None"
            "tr' = tr @ EvGetAppStatus (Name app) (Inr vms) # tunnel app agentclient d @
               concat (map (stepV d None) vms) @ complete" by simp_all
          with ne show ?thesis by (blast intro: nt_complete)
        next
          assume "\<exists>k c. k < length vms \<and> r5 = Some (Errorf_w ''failed to restart postgres on node: '' c) \<and>
            tr5 = ?tr4 @ concat (map (stepV d None) (take k vms)) @ stepV d (Some c) (vms ! k)"
          then obtain k c where k: "k < length vms"
            and r5: "r5 = Some (Errorf_w ''failed to restart postgres on node: '' c)"
            and tr5: "tr5 = ?tr4 @ concat (map (stepV d None) (take k vms)) @ stepV d (Some c) (vms ! k)"
            by blast
          from assms st ne ag di b r5 have "res = Some (Errorf_w ''failed to restart postgres on node: '' c)"
            "tr' = tr5"
            by (auto simp: restartNomadCluster_def Let_def tunnel_def)
          with tr5 have "res = Some (Errorf_w ''failed to restart postgres on node: '' c)"
            "tr' = tr @ EvGetAppStatus (Name app) (Inr vms) # tunnel app agentclient d @
               concat (map (stepV d None) (take k vms)) @ stepV d (Some c) (vms ! k)" by simp_all
          with ne k show ?thesis by (blast intro: nt_restart)
        qed
      qed
    qed
  qed
qed

lemma runRestart_trace:
  assumes "runRestart env appName = (res, tr)"
  shows "runTrace env appName res tr"
proof (cases "GetAppCompact env [] appName")
  case (Inl c)
  with assms have "res = Some (Errorf_w ''get app: '' c)" "tr = [EvGetAppCompact appName (Inl c)]"
    by (auto simp: runRestart_def Let_def)
  then show ?thesis by (rule rt_getapp)
next
  case g: (Inr app)
  let ?tr0 = "[EvGetAppCompact appName (Inr app)]"
  show ?thesis
  proof (cases "IsPostgresApp app")
    case False
    with assms g have "res = Some (Errorf (''app '' @ Name app @ '' is not a Postgres app''))" "tr = ?tr0"
      by (auto simp: runRestart_def Let_def)
    with False show ?thesis by (rule rt_notpg)
  next
    case pg: True
    consider (nomad) "PlatformVersion app = ''nomad''"
      | (machines) "PlatformVersion app = ''machines''"
      | (other) "PlatformVersion app \<noteq> ''nomad''" "PlatformVersion app \<noteq> ''machines''"
      by blast
    then show ?thesis
    proof cases
      case nomad
      show ?thesis
      proof (cases "hasRequiredVersionOnNomad env ?tr0 app ''0.0.20'' ''0.0.20''")
        case (Some c)
        with assms g pg nomad have "res = Some c"
          "tr = [EvGetAppCompact appName (Inr app), EvHasRequiredVersionOnNomad (Some c)]"
          by (auto simp: runRestart_def Let_def)
        with pg nomad show ?thesis by (rule rt_nomad_version)
      next
        case None
        with assms g pg nomad have
          "restartNomadCluster env app [EvGetAppCompact appName (Inr app), EvHasRequiredVersionOnNomad None] = (res, tr)"
          by (auto simp: runRestart_def Let_def)
        from restartNomadCluster_trace [OF this] obtain E where
          "tr = [EvGetAppCompact appName (Inr app), EvHasRequiredVersionOnNomad None] @ E"
          "nomadTrace env app res E" by blast
        with pg nomad show ?thesis by (blast intro: rt_nomad)
      qed
    next
      case machines
      then have nn: "PlatformVersion app \<noteq> ''nomad''" by simp
      show ?thesis
      proof (cases "agent_Establish env ?tr0")
        case (Inl c)
        with assms g pg machines nn have "res = Some (Errorf_w ''can't establish agent '' c)"
          "tr = [EvGetAppCompact appName (Inr app), EvAgentEstablish (Inl c)]"
          by (auto simp: runRestart_def Let_def)
        with pg machines show ?thesis by (rule rt_agent)
      next
        case ag: (Inr a)
        let ?tr1 = "[EvGetAppCompact appName (Inr app), EvAgentEstablish (Inr a)]"
        show ?thesis
        proof (cases "agent_Dialer env ?tr1 a (OrganizationSlug app)")
          case (Inl c)
          with assms g pg machines nn ag have "res = Some (tunnelError app c)"
            "tr = [EvGetAppCompact appName (Inr app), EvAgentEstablish (Inr a),
               EvDialer (OrganizationSlug app) (Inl c)]"
            by (auto simp: runRestart_def Let_def tunnelError_def)
          with pg machines show ?thesis by (rule rt_dialer)
        next
          case di: (Inr d)
          let ?tr2 = "[EvGetAppCompact appName (Inr app), EvAgentEstablish (Inr a),
             EvDialer (OrganizationSlug app) (Inr d)]"
          show ?thesis
          proof (cases "fetchLeader env ?tr2 app d")
            case (Inl c)
            with assms g pg machines nn ag di have "res = Some (Errorf_w ''can't fetch leader: '' c)"
              "tr = [EvGetAppCompact appName (Inr app), EvAgentEstablish (Inr a),
                 EvDialer (OrganizationSlug app) (Inr d), EvFetchLeader d (Inl c)]"
              by (auto simp: runRestart_def Let_def)
            with pg machines show ?thesis by (rule rt_leader)
          next
            case le: (Inr leader)
            let ?tr3 = "[EvGetAppCompact appName (Inr app), EvAgentEstablish (Inr a),
               EvDialer (OrganizationSlug app) (Inr d), EvFetchLeader d (Inr leader)]"
            show ?thesis
            proof (cases "hasRequiredVersionOnMachines env ?tr3 leader ''0.0.20'' ''0.0.20''")
              case (Some c)
              with assms g pg machines nn ag di le have "res = Some c"
                "tr = EvGetAppCompact appName (Inr app) # leaderChecked app a d leader (Some c)"
                by (auto simp: runRestart_def Let_def leaderChecked_def)
              with pg machines show ?thesis by (rule rt_machines_version)
            next
              case None
              with assms g pg machines nn ag di le have
                "restartMachinesCluster env app (EvGetAppCompact appName (Inr app) # leaderChecked app a d leader None) = (res, tr)"
                by (auto simp: runRestart_def Let_def leaderChecked_def)
              from restartMachinesCluster_trace [OF this] obtain E where
                "tr = EvGetAppCompact appName (Inr app) # leaderChecked app a d leader None @ E"
                "machinesTrace env app res E" by auto
              with pg machines show ?thesis by (blast intro: rt_machines)
            qed
          qed
        qed
      qed
    next
      case other
      with assms g pg have "res = None" "tr = ?tr0"
        by (auto simp: runRestart_def Let_def)
      with pg other show ?thesis by (blast intro: rt_other)
    qed
  qed
qed

section \<open>Facts about the events of a run\<close>

lemma in_leaseEvents:
  "e \<in> set (leaseEvents out nonces) \<Longrightarrow> \<exists>machine nonce. machine \<in> set out \<and> e = EvGetLease (ID machine) 40 (Inr nonce)"
  by (auto simp: leaseEvents_def dest: set_zip_leftD)

lemma set_stepM [simp]:
  "set (stepM d r p) =
     {EvPrint ('' Restarting '' @ ID (snd p) @ '' with lease '' @ fst p @ [CHR 0x0A]),
      EvRestartNodePG (ID (snd p)) (''['' @ PrivateIP (snd p) @ '']'') d r}"
  by (cases p) (simp add: stepM_def)

lemma set_stepV [simp]:
  "set (stepV d r vm) =
     {EvPrint ('' Restarting '' @ vm_ID vm @ [CHR 0x0A]),
      EvRestartNodePG (vm_ID vm) (''['' @ vm_PrivateIP vm @ '']'') d r}"
  by (simp add: stepV_def)

lemma failed_leaseEvents: "e \<in> set (leaseEvents out nonces) \<Longrightarrow> failed e = None"
  by (auto dest: in_leaseEvents)

lemma stepM_last [simp]:
  "last (stepM d r p) = EvRestartNodePG (ID (snd p)) (''['' @ PrivateIP (snd p) @ '']'') d r"
  "butlast (stepM d r p) = [EvPrint ('' Restarting '' @ ID (snd p) @ '' with lease '' @ fst p @ [CHR 0x0A])]"
  "stepM d r p \<noteq> []"
  by (cases p; simp add: stepM_def)+

lemma stepV_last [simp]:
  "last (stepV d r vm) = EvRestartNodePG (vm_ID vm) (''['' @ vm_PrivateIP vm @ '']'') d r"
  "butlast (stepV d r vm) = [EvPrint ('' Restarting '' @ vm_ID vm @ [CHR 0x0A])]"
  "stepV d r vm \<noteq> []"
  by (simp_all add: stepV_def)

lemma filter_leaseEvents [simp]:
  "filter isLease (leaseEvents out nonces) = leaseEvents out nonces"
  "filter isRestart (leaseEvents out nonces) = []"
  "filter isDialer (leaseEvents out nonces) = []"
  by (auto simp: filter_empty_conv filter_id_conv dest: in_leaseEvents)

lemma filter_stepM [simp]:
  "filter isLease (stepM d r p) = []"
  "filter isDialer (stepM d r p) = []"
  "filter isLease (concat (map (stepM d r) ms)) = []"
  "filter isDialer (concat (map (stepM d r) ms)) = []"
  by (auto simp: filter_empty_conv)

lemma filter_stepV [simp]:
  "filter isLease (stepV d r vm) = []"
  "filter isDialer (stepV d r vm) = []"
  "filter isLease (concat (map (stepV d r) vms)) = []"
  "filter isDialer (concat (map (stepV d r) vms)) = []"
  by (auto simp: filter_empty_conv)

lemma filter_restart_steps [simp]:
  "filter isRestart (stepM d r p) \<noteq> []"
  "filter isRestart (stepV d r vm) \<noteq> []"
  by (auto simp: filter_empty_conv)

lemma dropWhile_leaseEvents [simp]:
  "dropWhile (\<lambda>e. \<not> isRestart e) (leaseEvents out nonces @ ys) = dropWhile (\<lambda>e. \<not> isRestart e) ys"
  by (rule dropWhile_append2) (auto dest: in_leaseEvents)

lemma filter_dropWhile_empty: "filter Q xs = [] \<Longrightarrow> filter Q (dropWhile P xs) = []"
  by (auto simp: filter_empty_conv dest: set_dropWhileD)

lemma after_first:
  "filter Q (dropWhile (\<lambda>e. \<not> P e) tr) = [] \<Longrightarrow> i < j \<Longrightarrow> j < length tr \<Longrightarrow> P (tr ! i)
    \<Longrightarrow> \<not> Q (tr ! j)"
proof (induction tr arbitrary: i j)
  case Nil
  then show ?case by simp
next
  case (Cons x xs)
  show ?case
  proof (cases "P x")
    case True
    with Cons.prems(1) have "filter Q (x # xs) = []" by simp
    then have "\<forall>e\<in>set (x # xs). \<not> Q e" unfolding filter_empty_conv by blast
    with Cons.prems(3) show ?thesis using nth_mem by blast
  next
    case False
    with Cons.prems(4) obtain i' where i: "i = Suc i'" by (cases i) auto
    with Cons.prems(2) obtain j' where j: "j = Suc j'" by (cases j) auto
    from False Cons.prems(1) have "filter Q (dropWhile (\<lambda>e. \<not> P e) xs) = []" by simp
    from Cons.IH [OF this, of i' j'] Cons.prems i j show ?thesis by simp
  qed
qed

lemma dropWhile_as_drop:
  "i < length tr \<Longrightarrow> P (tr ! i) \<Longrightarrow> \<exists>n\<le>i. dropWhile (\<lambda>e. \<not> P e) tr = drop n tr"
proof (induction tr arbitrary: i)
  case Nil
  then show ?case by simp
next
  case (Cons x xs)
  show ?case
  proof (cases "P x")
    case True
    then have "dropWhile (\<lambda>e. \<not> P e) (x # xs) = drop 0 (x # xs)" by simp
    then show ?thesis by blast
  next
    case False
    with Cons.prems(2) obtain i' where i: "i = Suc i'" by (cases i) auto
    with Cons.prems have "i' < length xs" "P (xs ! i')" by simp_all
    from Cons.IH [OF this] obtain n where n: "n \<le> i'" "dropWhile (\<lambda>e. \<not> P e) xs = drop n xs"
      by blast
    with False i have "Suc n \<le> i \<and> dropWhile (\<lambda>e. \<not> P e) (x # xs) = drop (Suc n) (x # xs)"
      by simp
    then show ?thesis by blast
  qed
qed

lemma in_dropWhile:
  assumes "k \<le> j" and "j < length tr" and "P (tr ! k)"
  shows "tr ! j \<in> set (dropWhile (\<lambda>e. \<not> P e) tr)"
proof -
  from assms have "k < length tr" by simp
  from dropWhile_as_drop [of k tr P, OF this assms(3)] obtain n where
    n: "n \<le> k" "dropWhile (\<lambda>e. \<not> P e) tr = drop n tr" by blast
  with assms have "j - n < length (drop n tr)" "drop n tr ! (j - n) = tr ! j" by simp_all
  then show ?thesis using n(2) nth_mem by metis
qed

lemma after_both:
  assumes "filter R (dropWhile (\<lambda>e. \<not> Q e) (dropWhile (\<lambda>e. \<not> P e) tr)) = []"
    and "k \<le> j" and "j \<le> l" and "l < length tr" and "P (tr ! k)" and "Q (tr ! j)"
  shows "\<not> R (tr ! l)"
proof -
  from assms have "k < length tr" by simp
  from dropWhile_as_drop [of k tr P, OF this assms(5)] obtain n where
    n: "n \<le> k" "dropWhile (\<lambda>e. \<not> P e) tr = drop n tr" by blast
  let ?d = "drop n tr"
  from n assms have j: "j - n < length ?d" "?d ! (j - n) = tr ! j" by simp_all
  from n assms have l: "j - n \<le> l - n" "l - n < length ?d" "?d ! (l - n) = tr ! l" by simp_all
  from j assms(6) have "Q (?d ! (j - n))" by simp
  from in_dropWhile [of "j - n" "l - n" ?d Q, OF l(1,2) this] l(3) n(2)
  have "tr ! l \<in> set (dropWhile (\<lambda>e. \<not> Q e) (dropWhile (\<lambda>e. \<not> P e) tr))" by simp
  with assms(1) show ?thesis unfolding filter_empty_conv by blast
qed

lemma two_in_filter:
  assumes "i < j" and "j < length xs" and "P (xs ! i)" and "P (xs ! j)"
  shows "2 \<le> length (filter P xs)"
proof -
  from assms have "xs ! i \<in> set (take j xs)"
    by (metis length_take less_trans min.absorb2 less_imp_le nth_mem nth_take)
  with assms(3) have a: "filter P (take j xs) \<noteq> []" unfolding filter_empty_conv by blast
  from assms have "xs ! j \<in> set (drop j xs)"
    by (metis Cons_nth_drop_Suc list.set_intros(1))
  with assms(4) have b: "filter P (drop j xs) \<noteq> []" unfolding filter_empty_conv by blast
  have "filter P xs = filter P (take j xs) @ filter P (drop j xs)"
    by (metis append_take_drop_id filter_append)
  with a b show ?thesis
    by (cases "filter P (take j xs)"; cases "filter P (drop j xs)") simp_all
qed

lemma between_two:
  assumes b: "length (filter Q (takeWhile (\<lambda>e. \<not> P e) tr)) \<le> 1"
    and a: "length (filter Q (dropWhile (\<lambda>e. \<not> P e) tr)) \<le> 1"
    and ij: "i < j" "j < length tr" and q: "Q (tr ! i)" "Q (tr ! j)"
    and pq: "\<And>e. Q e \<Longrightarrow> \<not> P e"
  shows "\<exists>k. i < k \<and> k < j \<and> P (tr ! k)"
proof -
  let ?tw = "takeWhile (\<lambda>e. \<not> P e) tr"
  let ?n = "length ?tw"
  have d: "dropWhile (\<lambda>e. \<not> P e) tr = drop ?n tr" by (rule dropWhile_eq_drop)
  have t: "?tw = take ?n tr" by (rule takeWhile_eq_take)
  have "\<not> j < ?n"
  proof
    assume l: "j < ?n"
    with ij have "i < ?n" by simp
    with l t q have "Q (?tw ! i)" "Q (?tw ! j)" by (simp_all add: takeWhile_nth)
    from two_in_filter [of i j ?tw Q, OF ij(1) l this] b show False by simp
  qed
  then have nj: "?n \<le> j" by simp
  have "i < ?n"
  proof (rule ccontr)
    assume "\<not> i < ?n"
    then have ni: "?n \<le> i" by simp
    with ij have "i - ?n < j - ?n" "j - ?n < length (drop ?n tr)" by simp_all
    moreover from ni nj ij q have "Q (drop ?n tr ! (i - ?n))" "Q (drop ?n tr ! (j - ?n))" by simp_all
    ultimately have "2 \<le> length (filter Q (drop ?n tr))" by (rule two_in_filter)
    with a d show False by simp
  qed
  moreover from nj ij have "?n < length tr" by simp
  then have p: "P (tr ! ?n)" using nth_length_takeWhile [of "\<lambda>e. \<not> P e" tr] by simp
  moreover from p pq q(2) have "?n \<noteq> j" by auto
  ultimately show ?thesis using nj by (intro exI [of _ ?n]) simp
qed

lemma dropWhile_dialer_leaseEvents [simp]:
  "dropWhile (\<lambda>e. \<not> isDialer e) (leaseEvents out nonces @ ys) = dropWhile (\<lambda>e. \<not> isDialer e) ys"
  by (rule dropWhile_append2) (auto dest: in_leaseEvents)

lemma only_last:
  assumes "\<forall>x\<in>set (butlast tr). \<not> P x" and "tr = pre @ e # post" and "P e"
  shows "post = [] \<and> last tr = e"
proof (cases "post = []")
  case True
  with assms(2) show ?thesis by simp
next
  case False
  with assms(2) have "e \<in> set (butlast tr)" by (simp add: butlast_append)
  with assms(1,3) show ?thesis by blast
qed

lemma surfaced_text:
  assumes "failed e = Some c"
  shows "\<exists>p w. surfaced e = Some (Err (p @ msg c) w)"
proof -
  have c: "\<exists>p w. c = Err (p @ msg c) w"
    by (metis append_Nil error.collapse)
  have w: "\<And>s. \<exists>p w. Errorf_w s c = Err (p @ msg c) w" "\<And>s. \<exists>p w. Errorf_s s c = Err (p @ msg c) w"
    by (simp_all add: Errorf_w_def Errorf_s_def)
  have s: "\<And>r::error + 'a. errOf r = Some c \<Longrightarrow> r = Inl c" for r
    by (metis errOf.elims option.distinct(1) option.inject)
  from assms show ?thesis
    by (cases e) (use c w in \<open>auto dest!: s\<close>)
qed

section \<open>What each shape guarantees\<close>

lemma machinesTrace_terminal:
  assumes "machinesTrace env app res E"
  shows "E \<noteq> [] \<and> (\<forall>x\<in>set (butlast E). failed x = None) \<and>
         (failed (last E) \<noteq> None \<longrightarrow> res = surfaced (last E))"
  using assms
proof (cases rule: machinesTrace.cases)
  case (mt_flaps c)
  then show ?thesis by simp
next
  case (mt_list c)
  then show ?thesis by simp
next
  case (mt_lease k out nonces c)
  then show ?thesis by (auto simp: listed_def butlast_append dest: failed_leaseEvents)
next
  case mt_empty
  then show ?thesis by (simp add: listed_def)
next
  case (mt_agent out nonces c)
  then show ?thesis by (auto simp: listed_def butlast_append dest: failed_leaseEvents)
next
  case (mt_dialer out nonces c a)
  then show ?thesis
    by (auto simp: listed_def butlast_append tunnelError_def dest: failed_leaseEvents)
next
  case (mt_restart out nonces ms k c a d)
  then show ?thesis
    by (auto simp: listed_def tunnel_def butlast_append dest: failed_leaseEvents)
next
  case (mt_complete out nonces ms a d)
  then show ?thesis
    by (auto simp: listed_def tunnel_def complete_def butlast_append
        dest: failed_leaseEvents)
qed

lemma nomadTrace_terminal:
  assumes "nomadTrace env app res E"
  shows "E \<noteq> [] \<and> (\<forall>x\<in>set (butlast E). failed x = None) \<and>
         (failed (last E) \<noteq> None \<longrightarrow> res = surfaced (last E))"
  using assms
proof (cases rule: nomadTrace.cases)
  case (nt_restart vms k c a d)
  then show ?thesis
    by (auto simp: tunnel_def butlast_append)
next
  case (nt_complete vms a d)
  then show ?thesis
    by (auto simp: tunnel_def complete_def butlast_append)
qed (auto simp: tunnelError_def)

lemma runTrace_terminal:
  assumes "runTrace env appName res tr"
  shows "tr \<noteq> [] \<and> (\<forall>x\<in>set (butlast tr). failed x = None) \<and>
         (failed (last tr) \<noteq> None \<longrightarrow> res = surfaced (last tr))"
  using assms
proof (cases rule: runTrace.cases)
  case (rt_nomad app E)
  with nomadTrace_terminal [OF rt_nomad(3)] show ?thesis
    by (auto simp: butlast_append)
next
  case (rt_machines app E a d leader)
  with machinesTrace_terminal [OF rt_machines(3)] show ?thesis
    by (auto simp: butlast_append leaderChecked_def)
qed (auto simp: tunnelError_def leaderChecked_def)

lemma machinesTrace_kinds:
  assumes "machinesTrace env app res E" and "e \<in> set E"
  shows "\<not> isVersionCheck e" and "e \<noteq> EvGetAppStatus n r"
  using assms
  by (cases rule: machinesTrace.cases;
      auto simp: listed_def tunnel_def complete_def dest!: in_leaseEvents)+

lemma nomadTrace_kinds:
  assumes "nomadTrace env app res E" and "e \<in> set E"
  shows "\<not> isVersionCheck e" and "\<not> isLease e" and "e \<noteq> EvList s r"
  using assms
  by (cases rule: nomadTrace.cases; auto simp: tunnel_def complete_def)+

lemma machinesTrace_empty:
  assumes "machinesTrace env app res E" and "EvList s (Inr []) \<in> set E"
  shows "res = Some (Errorf ''no machines found'') \<and> E = listed []"
  using assms
  by (cases rule: machinesTrace.cases)
     (auto simp: listed_def tunnel_def complete_def dest!: in_leaseEvents)

lemma nomadTrace_empty:
  assumes "nomadTrace env app res E" and "EvGetAppStatus n (Inr []) \<in> set E"
  shows "res = Some (Errorf ''no vms found'') \<and> E = [EvGetAppStatus n (Inr [])]"
  using assms
  by (cases rule: nomadTrace.cases) (auto simp: tunnel_def complete_def)

lemma machinesTrace_tunnel:
  assumes "machinesTrace env app res E"
  shows "length (filter isDialer E) \<le> 1"
    and "EvRestartNodePG nid address d r \<in> set E \<Longrightarrow>
           filter isDialer E = [EvDialer (OrganizationSlug app) (Inr d)]"
    and "filter isDialer (dropWhile (\<lambda>e. \<not> isRestart e) E) = []"
  using assms
  by (cases rule: machinesTrace.cases;
      auto simp: listed_def tunnel_def complete_def filter_dropWhile_empty dest: in_leaseEvents)+

lemma nomadTrace_tunnel:
  assumes "nomadTrace env app res E"
  shows "length (filter isDialer E) \<le> 1"
    and "EvRestartNodePG nid address d r \<in> set E \<Longrightarrow>
           filter isDialer E = [EvDialer (OrganizationSlug app) (Inr d)]"
    and "filter isDialer (dropWhile (\<lambda>e. \<not> isRestart e) E) = []"
  using assms
  by (cases rule: nomadTrace.cases;
      auto simp: tunnel_def complete_def filter_dropWhile_empty)+

lemma machinesTrace_second_tunnel:
  assumes "machinesTrace env app res E"
  shows "filter isLease (dropWhile (\<lambda>e. \<not> isDialer e) E) = []"
    and "filter isDialer E \<noteq> [] \<Longrightarrow> EvList s (Inr out) \<in> set E \<Longrightarrow>
           \<exists>nonces. length nonces = length out \<and> filter isLease E = leaseEvents out nonces"
  using assms
  by (cases rule: machinesTrace.cases;
      auto simp: listed_def tunnel_def complete_def dest: in_leaseEvents)+

lemma machinesTrace_leases:
  assumes "machinesTrace env app res E"
  shows "filter isLease (dropWhile (\<lambda>e. \<not> isRestart e) E) = []"
    and "EvList s (Inr out) \<in> set E \<Longrightarrow> filter isRestart E \<noteq> [] \<Longrightarrow>
           \<exists>nonces. length nonces = length out \<and> filter isLease E = leaseEvents out nonces"
    and "EvGetLease mid ttl (Inl c) \<in> set E \<Longrightarrow>
           res = Some (Errorf_w ''failed to obtain lease: '' c) \<and> filter isRestart E = []"
  using assms
  by (cases rule: machinesTrace.cases;
      auto simp: listed_def tunnel_def complete_def filter_dropWhile_empty dest: in_leaseEvents)+

lemma nomadTrace_leases:
  assumes "nomadTrace env app res E"
  shows "filter isLease E = []"
  using nomadTrace_kinds(2) [OF assms] by (simp add: filter_empty_conv)

section \<open>Nonces and restarted nodes of a trace\<close>

lemma noncesOf_append [simp]: "noncesOf (xs @ ys) = noncesOf xs @ noncesOf ys"
  by (induction xs) (simp_all split: event.split sum.split)

lemma restarted_append [simp]: "restarted (xs @ ys) = restarted xs @ restarted ys"
  by (induction xs) (simp_all split: event.split)

lemma restarted_length: "length (restarted tr) = length (filter isRestart tr)"
  by (induction tr) (simp_all split: event.split)

lemma noncesOf_leaseEvents [simp]:
  "length nonces = length out \<Longrightarrow> noncesOf (leaseEvents out nonces) = nonces"
  unfolding leaseEvents_def by (induction out nonces rule: list_induct2') auto

lemma noncesOf_leaseEvents_take [simp]:
  "length nonces = k \<Longrightarrow> k \<le> length out \<Longrightarrow> noncesOf (leaseEvents (take k out) nonces) = nonces"
  by (rule noncesOf_leaseEvents) simp

lemma restarted_leaseEvents [simp]: "restarted (leaseEvents out nonces) = []"
  unfolding leaseEvents_def by (induction out nonces rule: list_induct2') auto

lemma noncesOf_steps [simp]:
  "noncesOf (stepM d r p) = []"
  "noncesOf (stepV d r vm) = []"
  "noncesOf (concat (map (stepM d r) ms)) = []"
  "noncesOf (concat (map (stepV d r) vms)) = []"
proof -
  show a: "noncesOf (stepM d r p) = []" for p by (cases p) (simp add: stepM_def)
  show b: "noncesOf (stepV d r vm) = []" for vm by (simp add: stepV_def)
  show "noncesOf (concat (map (stepM d r) ms)) = []" by (induction ms) (simp_all add: a)
  show "noncesOf (concat (map (stepV d r) vms)) = []" by (induction vms) (simp_all add: b)
qed

lemma restarted_steps [simp]:
  "restarted (stepM d r p) = [ID (snd p)]"
  "restarted (stepV d r vm) = [vm_ID vm]"
  "restarted (concat (map (stepM d r) ms)) = map (ID \<circ> snd) ms"
  "restarted (concat (map (stepV d r) vms)) = map vm_ID vms"
proof -
  show a: "restarted (stepM d r p) = [ID (snd p)]" for p by (cases p) (simp add: stepM_def)
  show b: "restarted (stepV d r vm) = [vm_ID vm]" for vm by (simp add: stepV_def)
  show "restarted (concat (map (stepM d r) ms)) = map (ID \<circ> snd) ms"
    by (induction ms) (simp_all add: a)
  show "restarted (concat (map (stepV d r) vms)) = map vm_ID vms"
    by (induction vms) (simp_all add: b)
qed

lemma leaseEvents_nth:
  assumes "length nonces \<le> length out" and "i < length nonces"
  shows "EvGetLease (ID (out ! i)) 40 (Inr (nonces ! i)) \<in> set (leaseEvents out nonces)"
proof -
  from assms have "(out ! i, nonces ! i) \<in> set (zip out nonces)"
    by (auto simp: in_set_zip)
  then show ?thesis unfolding leaseEvents_def by force
qed

lemma leaseEvents_take_nth:
  assumes "length nonces = k" and "k \<le> length out" and "i < length nonces"
  shows "EvGetLease (ID (out ! i)) 40 (Inr (nonces ! i)) \<in> set (leaseEvents (take k out) nonces)"
  using leaseEvents_nth [of nonces "take k out" i] assms by simp

section \<open>The map from lease nonce to machine\<close>


lemma update_fresh: "k \<notin> fst ` set m \<Longrightarrow> AList.update k v m = m @ [(k, v)]"
  by (induction m) auto

lemma putAll_Cons [simp]:
  "putAll (n # nonces) (x # out) m = putAll nonces out (AList.update n x m)"
  "putAll [] out m = m" "putAll nonces [] m = m"
  by (simp_all add: putAll_def)




lemma putAll_fresh:
  "length nonces = length out \<Longrightarrow> distinct (map fst m @ nonces) \<Longrightarrow>
     putAll nonces out m = m @ zip nonces out"
proof (induction nonces out arbitrary: m rule: list_induct2)
  case Nil
  then show ?case by simp
next
  case (Cons n nonces x out)
  from Cons.prems have f: "n \<notin> fst ` set m" by auto
  from Cons.prems f have "distinct (map fst (m @ [(n, x)]) @ nonces)" by auto
  from Cons.IH [OF this] f show ?case by (simp add: update_fresh)
qed



lemma range_mset:
  "range_visits_once env \<Longrightarrow> mset (map f (mapRange env m)) = mset (map f m)"
  unfolding range_visits_once_def by (metis mset_map)



section \<open>The restart loop follows the map\<close>

lemma machinesTrace_restarted:
  assumes "machinesTrace env app res E" and "EvList s (Inr out) \<in> set E"
  shows "length (noncesOf E) \<le> length out \<and>
    (\<forall>i<length (noncesOf E). EvGetLease (ID (out ! i)) 40 (Inr (noncesOf E ! i)) \<in> set E) \<and>
    (\<exists>k. restarted E = map (ID \<circ> snd) (take k (mapRange env (putAll (noncesOf E) out [])))) \<and>
    (restarted E \<noteq> [] \<longrightarrow> length (noncesOf E) = length out) \<and>
    (res = None \<longrightarrow> length (noncesOf E) = length out \<and>
       filter isLease E = leaseEvents out (noncesOf E) \<and>
       restarted E = map (ID \<circ> snd) (mapRange env (putAll (noncesOf E) out [])))"
  using assms
proof (cases rule: machinesTrace.cases)
  case (mt_flaps c)
  with assms(2) show ?thesis by simp
next
  case (mt_list c)
  with assms(2) show ?thesis by simp
next
  case (mt_lease k out' nonces c)
  with assms(2) have o: "out' = out" by (auto simp: listed_def dest: in_leaseEvents)
  have "restarted E = map (ID \<circ> snd) (take 0 (mapRange env (putAll (noncesOf E) out [])))"
    using mt_lease by (simp add: listed_def)
  then have "\<exists>k. restarted E = map (ID \<circ> snd) (take k (mapRange env (putAll (noncesOf E) out [])))"
    by blast
  with mt_lease o show ?thesis by (simp add: listed_def leaseEvents_take_nth)
next
  case mt_empty
  with assms(2) have o: "out = []" by (auto simp: listed_def)
  have "restarted E = map (ID \<circ> snd) (take 0 (mapRange env (putAll (noncesOf E) out [])))"
    using mt_empty by (simp add: listed_def)
  then have "\<exists>k. restarted E = map (ID \<circ> snd) (take k (mapRange env (putAll (noncesOf E) out [])))"
    by blast
  with mt_empty o show ?thesis by (simp add: listed_def)
next
  case (mt_agent out' nonces c)
  with assms(2) have o: "out' = out" by (auto simp: listed_def dest: in_leaseEvents)
  have "restarted E = map (ID \<circ> snd) (take 0 (mapRange env (putAll (noncesOf E) out [])))"
    using mt_agent by (simp add: listed_def)
  then have "\<exists>k. restarted E = map (ID \<circ> snd) (take k (mapRange env (putAll (noncesOf E) out [])))"
    by blast
  with mt_agent o show ?thesis by (simp add: listed_def leaseEvents_nth)
next
  case (mt_dialer out' nonces c a)
  with assms(2) have o: "out' = out" by (auto simp: listed_def dest: in_leaseEvents)
  have "restarted E = map (ID \<circ> snd) (take 0 (mapRange env (putAll (noncesOf E) out [])))"
    using mt_dialer by (simp add: listed_def)
  then have "\<exists>k. restarted E = map (ID \<circ> snd) (take k (mapRange env (putAll (noncesOf E) out [])))"
    by blast
  with mt_dialer o show ?thesis by (simp add: listed_def leaseEvents_nth)
next
  case (mt_restart out' nonces ms k c a d)
  with assms(2) have o: "out' = out"
    by (auto simp: listed_def tunnel_def dest: in_leaseEvents)
  from mt_restart o have n: "noncesOf E = nonces" by (simp add: listed_def tunnel_def)
  from mt_restart o n have "restarted E = map (ID \<circ> snd) (take (Suc k) (mapRange env (putAll (noncesOf E) out [])))"
    by (simp add: listed_def tunnel_def take_Suc_conv_app_nth)
  then have "\<exists>k. restarted E = map (ID \<circ> snd) (take k (mapRange env (putAll (noncesOf E) out [])))"
    by blast
  with mt_restart o n show ?thesis by (simp add: listed_def tunnel_def leaseEvents_nth)
next
  case (mt_complete out' nonces ms a d)
  with assms(2) have o: "out' = out"
    by (auto simp: listed_def tunnel_def complete_def dest: in_leaseEvents)
  from mt_complete o have n: "noncesOf E = nonces" by (simp add: listed_def tunnel_def complete_def)
  from mt_complete o n have r: "restarted E = map (ID \<circ> snd) (mapRange env (putAll (noncesOf E) out []))"
    by (simp add: listed_def tunnel_def complete_def)
  then have "restarted E = map (ID \<circ> snd) (take (length (mapRange env (putAll (noncesOf E) out [])))
      (mapRange env (putAll (noncesOf E) out [])))" by simp
  then have "\<exists>k. restarted E = map (ID \<circ> snd) (take k (mapRange env (putAll (noncesOf E) out [])))"
    by blast
  with mt_complete o n r show ?thesis by (simp add: listed_def tunnel_def complete_def leaseEvents_nth)
qed

lemma machines_view:
  assumes "runRestart env appName = (res, tr)" and "EvList s (Inr out) \<in> set tr"
  shows "\<exists>app pre E. machinesTrace env app res E \<and> tr = pre @ E \<and> EvList s (Inr out) \<in> set E \<and>
    noncesOf pre = [] \<and> restarted pre = [] \<and> filter isLease pre = [] \<and> filter isRestart pre = []"
proof -
  from assms(1) have "runTrace env appName res tr" by (rule runRestart_trace)
  then show ?thesis
  proof (cases rule: runTrace.cases)
    case (rt_nomad app E)
    with assms(2) have "EvList s (Inr out) \<in> set E" by simp
    with nomadTrace_kinds(3) [OF rt_nomad(3)] show ?thesis by blast
  next
    case (rt_machines app E a d leader)
    let ?pre = "EvGetAppCompact appName (Inr app) # leaderChecked app a d leader None"
    from rt_machines assms(2) have "machinesTrace env app res E \<and> tr = ?pre @ E \<and>
      EvList s (Inr out) \<in> set E \<and> noncesOf ?pre = [] \<and> restarted ?pre = [] \<and>
      filter isLease ?pre = [] \<and> filter isRestart ?pre = []"
      by (simp add: leaderChecked_def)
    then show ?thesis by blast
  qed (use assms(2) in \<open>simp_all add: leaderChecked_def\<close>)
qed

section \<open>Evaluating the examples\<close>

lemmas demo_defs = demoEnv_def demoApp_def nodeA_def nodeB_def nodeC_def vmA_def vmB_def vmC_def
lemmas run_defs = runRestart_def restartMachinesCluster_def restartNomadCluster_def Let_def
  Errorf_def Errorf_w_def Errorf_s_def

lemma run_demo_machines:
  "runRestart (demoEnv ''machines'') ''pgtest'' =
     (None,
      [EvGetAppCompact ''pgtest'' (Inr (demoApp ''machines'')),
       EvAgentEstablish (Inr 0), EvDialer ''acme'' (Inr 0), EvFetchLeader 0 (Inr nodeA),
       EvHasRequiredVersionOnMachines nodeA None, EvEstablishForApp None,
       EvList ''started'' (Inr [nodeA, nodeB, nodeC]),
       EvPrint (''Acquiring lease on postgres cluster'' @ [CHR 0x0A]),
       EvGetLease ''A'' 40 (Inr ''lease-A''), EvGetLease ''B'' 40 (Inr ''lease-B''),
       EvGetLease ''C'' 40 (Inr ''lease-C''),
       EvAgentEstablish (Inr 0), EvDialer ''acme'' (Inr 1),
       EvPrint (''Restarting Postgres'' @ [CHR 0x0A]),
       EvPrint ('' Restarting C with lease lease-C'' @ [CHR 0x0A]),
       EvRestartNodePG ''C'' ''[fdaa::c]'' 1 None,
       EvPrint ('' Restarting B with lease lease-B'' @ [CHR 0x0A]),
       EvRestartNodePG ''B'' ''[fdaa::b]'' 1 None,
       EvPrint ('' Restarting A with lease lease-A'' @ [CHR 0x0A]),
       EvRestartNodePG ''A'' ''[fdaa::a]'' 1 None,
       EvPrint (''Restart complete'' @ [CHR 0x0A])])"
  by (simp add: run_defs demo_defs)

lemma run_demo_nomad:
  "runRestart (demoEnv ''nomad'') ''pgtest'' =
     (None,
      [EvGetAppCompact ''pgtest'' (Inr (demoApp ''nomad'')),
       EvHasRequiredVersionOnNomad None,
       EvGetAppStatus ''pgtest'' (Inr [vmA, vmB, vmC]),
       EvAgentEstablish (Inr 0), EvDialer ''acme'' (Inr 0),
       EvPrint (''Restarting Postgres'' @ [CHR 0x0A]),
       EvPrint ('' Restarting A'' @ [CHR 0x0A]),
       EvRestartNodePG ''A'' ''[fdaa::a]'' 0 None,
       EvPrint ('' Restarting B'' @ [CHR 0x0A]),
       EvRestartNodePG ''B'' ''[fdaa::b]'' 0 None,
       EvPrint ('' Restarting C'' @ [CHR 0x0A]),
       EvRestartNodePG ''C'' ''[fdaa::c]'' 0 None,
       EvPrint (''Restart complete'' @ [CHR 0x0A])])"
  by (simp add: run_defs demo_defs)

lemma run_tooOld_nomad:
  "runRestart (tooOld ''nomad'') ''pgtest'' =
     (Some (Err ''image is too old'' None),
      [EvGetAppCompact ''pgtest'' (Inr (demoApp ''nomad'')),
       EvHasRequiredVersionOnNomad (Some (Err ''image is too old'' None))])"
  by (simp add: run_defs tooOld_def demo_defs)

lemma run_tooOld_machines:
  "runRestart (tooOld ''machines'') ''pgtest'' =
     (Some (Err ''image is too old'' None),
      [EvGetAppCompact ''pgtest'' (Inr (demoApp ''machines'')),
       EvAgentEstablish (Inr 0), EvDialer ''acme'' (Inr 0), EvFetchLeader 0 (Inr nodeA),
       EvHasRequiredVersionOnMachines nodeA (Some (Err ''image is too old'' None))])"
  by (simp add: run_defs tooOld_def demo_defs)

lemma run_empty_machines:
  "runRestart (emptyCluster ''machines'') ''pgtest'' =
     (Some (Err ''no machines found'' None),
      [EvGetAppCompact ''pgtest'' (Inr (demoApp ''machines'')),
       EvAgentEstablish (Inr 0), EvDialer ''acme'' (Inr 0), EvFetchLeader 0 (Inr nodeA),
       EvHasRequiredVersionOnMachines nodeA None, EvEstablishForApp None,
       EvList ''started'' (Inr []),
       EvPrint (''Acquiring lease on postgres cluster'' @ [CHR 0x0A])])"
  by (simp add: run_defs emptyCluster_def demo_defs)

lemma run_empty_nomad:
  "runRestart (emptyCluster ''nomad'') ''pgtest'' =
     (Some (Err ''no vms found'' None),
      [EvGetAppCompact ''pgtest'' (Inr (demoApp ''nomad'')),
       EvHasRequiredVersionOnNomad None, EvGetAppStatus ''pgtest'' (Inr [])])"
  by (simp add: run_defs emptyCluster_def demo_defs)

lemma run_nodeDown_nomad_A:
  "runRestart (nodeDown ''nomad'' ''[fdaa::a]'') ''pgtest'' =
     (Some (Err ''failed to restart postgres on node: unreachable'' (Some (Err ''unreachable'' None))),
      [EvGetAppCompact ''pgtest'' (Inr (demoApp ''nomad'')),
       EvHasRequiredVersionOnNomad None,
       EvGetAppStatus ''pgtest'' (Inr [vmA, vmB, vmC]),
       EvAgentEstablish (Inr 0), EvDialer ''acme'' (Inr 0),
       EvPrint (''Restarting Postgres'' @ [CHR 0x0A]),
       EvPrint ('' Restarting A'' @ [CHR 0x0A]),
       EvRestartNodePG ''A'' ''[fdaa::a]'' 0 (Some (Err ''unreachable'' None))])"
  by (simp add: run_defs nodeDown_def demo_defs)

lemma run_nodeDown_nomad_B:
  "runRestart (nodeDown ''nomad'' ''[fdaa::b]'') ''pgtest'' =
     (Some (Err ''failed to restart postgres on node: unreachable'' (Some (Err ''unreachable'' None))),
      [EvGetAppCompact ''pgtest'' (Inr (demoApp ''nomad'')),
       EvHasRequiredVersionOnNomad None,
       EvGetAppStatus ''pgtest'' (Inr [vmA, vmB, vmC]),
       EvAgentEstablish (Inr 0), EvDialer ''acme'' (Inr 0),
       EvPrint (''Restarting Postgres'' @ [CHR 0x0A]),
       EvPrint ('' Restarting A'' @ [CHR 0x0A]),
       EvRestartNodePG ''A'' ''[fdaa::a]'' 0 None,
       EvPrint ('' Restarting B'' @ [CHR 0x0A]),
       EvRestartNodePG ''B'' ''[fdaa::b]'' 0 (Some (Err ''unreachable'' None))])"
  by (simp add: run_defs nodeDown_def demo_defs)

lemma run_nodeDown_machines_B:
  "runRestart (nodeDown ''machines'' ''[fdaa::b]'') ''pgtest'' =
     (Some (Err ''failed to restart postgres on node: unreachable'' (Some (Err ''unreachable'' None))),
      [EvGetAppCompact ''pgtest'' (Inr (demoApp ''machines'')),
       EvAgentEstablish (Inr 0), EvDialer ''acme'' (Inr 0), EvFetchLeader 0 (Inr nodeA),
       EvHasRequiredVersionOnMachines nodeA None, EvEstablishForApp None,
       EvList ''started'' (Inr [nodeA, nodeB, nodeC]),
       EvPrint (''Acquiring lease on postgres cluster'' @ [CHR 0x0A]),
       EvGetLease ''A'' 40 (Inr ''lease-A''), EvGetLease ''B'' 40 (Inr ''lease-B''),
       EvGetLease ''C'' 40 (Inr ''lease-C''),
       EvAgentEstablish (Inr 0), EvDialer ''acme'' (Inr 1),
       EvPrint (''Restarting Postgres'' @ [CHR 0x0A]),
       EvPrint ('' Restarting C with lease lease-C'' @ [CHR 0x0A]),
       EvRestartNodePG ''C'' ''[fdaa::c]'' 1 None,
       EvPrint ('' Restarting B with lease lease-B'' @ [CHR 0x0A]),
       EvRestartNodePG ''B'' ''[fdaa::b]'' 1 (Some (Err ''unreachable'' None))])"
  by (simp add: run_defs nodeDown_def demo_defs)

lemma run_leaseDenied_A:
  "runRestart (leaseDenied ''A'') ''pgtest'' =
     (Some (Err ''failed to obtain lease: lease is held'' (Some (Err ''lease is held'' None))),
      [EvGetAppCompact ''pgtest'' (Inr (demoApp ''machines'')),
       EvAgentEstablish (Inr 0), EvDialer ''acme'' (Inr 0), EvFetchLeader 0 (Inr nodeA),
       EvHasRequiredVersionOnMachines nodeA None, EvEstablishForApp None,
       EvList ''started'' (Inr [nodeA, nodeB, nodeC]),
       EvPrint (''Acquiring lease on postgres cluster'' @ [CHR 0x0A]),
       EvGetLease ''A'' 40 (Inl (Err ''lease is held'' None))])"
  by (simp add: run_defs leaseDenied_def demo_defs)

lemma run_leaseDenied_B:
  "runRestart (leaseDenied ''B'') ''pgtest'' =
     (Some (Err ''failed to obtain lease: lease is held'' (Some (Err ''lease is held'' None))),
      [EvGetAppCompact ''pgtest'' (Inr (demoApp ''machines'')),
       EvAgentEstablish (Inr 0), EvDialer ''acme'' (Inr 0), EvFetchLeader 0 (Inr nodeA),
       EvHasRequiredVersionOnMachines nodeA None, EvEstablishForApp None,
       EvList ''started'' (Inr [nodeA, nodeB, nodeC]),
       EvPrint (''Acquiring lease on postgres cluster'' @ [CHR 0x0A]),
       EvGetLease ''A'' 40 (Inr ''lease-A''),
       EvGetLease ''B'' 40 (Inl (Err ''lease is held'' None))])"
  by (simp add: run_defs leaseDenied_def demo_defs)

lemma range_demo:
  "range_visits_once (demoEnv platform)" "range_visits_once sharedNonce"
  by (simp_all add: range_visits_once_def sharedNonce_def demoEnv_def)

lemma run_sharedNonce:
  "runRestart sharedNonce ''pgtest'' =
     (None,
      [EvGetAppCompact ''pgtest'' (Inr (demoApp ''machines'')),
       EvAgentEstablish (Inr 0), EvDialer ''acme'' (Inr 0), EvFetchLeader 0 (Inr nodeA),
       EvHasRequiredVersionOnMachines nodeA None, EvEstablishForApp None,
       EvList ''started'' (Inr [nodeA, nodeB, nodeC]),
       EvPrint (''Acquiring lease on postgres cluster'' @ [CHR 0x0A]),
       EvGetLease ''A'' 40 (Inr ''lease-1''), EvGetLease ''B'' 40 (Inr ''lease-1''),
       EvGetLease ''C'' 40 (Inr ''lease-2''),
       EvAgentEstablish (Inr 0), EvDialer ''acme'' (Inr 1),
       EvPrint (''Restarting Postgres'' @ [CHR 0x0A]),
       EvPrint ('' Restarting C with lease lease-2'' @ [CHR 0x0A]),
       EvRestartNodePG ''C'' ''[fdaa::c]'' 1 None,
       EvPrint ('' Restarting B with lease lease-1'' @ [CHR 0x0A]),
       EvRestartNodePG ''B'' ''[fdaa::b]'' 1 None,
       EvPrint (''Restart complete'' @ [CHR 0x0A])])"
  by (simp add: run_defs sharedNonce_def demo_defs)

section \<open>Properties of the command\<close>

text \<open>
  C1, as amended. When a version check fails, the run returns the error of the check and
  the check is the last call of the run: no lease has been acquired and no restart command
  has been sent. On the nomad path no tunnel has been established and the agent has not
  been contacted. On the machines path exactly one tunnel has been established before the
  check: the leader whose version is checked was fetched through it.
\<close>

theorem version_check_failure_aborts:
  assumes "runRestart env appName = (res, tr)" and "e \<in> set tr"
    and "isVersionCheck e" and "failed e = Some c"
  shows "res = Some c \<and> last tr = e \<and> filter isLease tr = [] \<and> filter isRestart tr = [] \<and>
    (\<forall>r. e = EvHasRequiredVersionOnNomad r \<longrightarrow> filter isDialer tr = [] \<and> filter isAgent tr = []) \<and>
    (\<forall>leader r. e = EvHasRequiredVersionOnMachines leader r \<longrightarrow>
       (\<exists>slug d. filter isDialer tr = [EvDialer slug (Inr d)] \<and> EvFetchLeader d (Inr leader) \<in> set tr))"
proof -
  from assms(1) have "runTrace env appName res tr" by (rule runRestart_trace)
  then show ?thesis
  proof (cases rule: runTrace.cases)
    case (rt_nomad app E)
    with assms(2-4) nomadTrace_kinds(1) [OF rt_nomad(3)] show ?thesis by auto
  next
    case (rt_machines app E a d leader)
    with assms(2-4) machinesTrace_kinds(1) [OF rt_machines(3)] show ?thesis
      by (auto simp: leaderChecked_def)
  qed (use assms(2-4) in \<open>auto simp: leaderChecked_def\<close>)
qed

text \<open>
  The amended C1 on both paths: the cluster \<open>pgtest\<close> with an image that is too old.
\<close>

theorem version_check_failure_aborts_witness:
  "EvHasRequiredVersionOnNomad (Some (Err ''image is too old'' None))
     \<in> set (snd (runRestart (tooOld ''nomad'') ''pgtest'')) \<and>
   isVersionCheck (EvHasRequiredVersionOnNomad (Some (Err ''image is too old'' None))) \<and>
   failed (EvHasRequiredVersionOnNomad (Some (Err ''image is too old'' None)))
     = Some (Err ''image is too old'' None) \<and>
   fst (runRestart (tooOld ''nomad'') ''pgtest'') = Some (Err ''image is too old'' None) \<and>
   filter isDialer (snd (runRestart (tooOld ''nomad'') ''pgtest'')) = [] \<and>
   EvHasRequiredVersionOnMachines nodeA (Some (Err ''image is too old'' None))
     \<in> set (snd (runRestart (tooOld ''machines'') ''pgtest'')) \<and>
   isVersionCheck (EvHasRequiredVersionOnMachines nodeA (Some (Err ''image is too old'' None))) \<and>
   failed (EvHasRequiredVersionOnMachines nodeA (Some (Err ''image is too old'' None)))
     = Some (Err ''image is too old'' None) \<and>
   fst (runRestart (tooOld ''machines'') ''pgtest'') = Some (Err ''image is too old'' None) \<and>
   filter isLease (snd (runRestart (tooOld ''machines'') ''pgtest'')) = [] \<and>
   filter isDialer (snd (runRestart (tooOld ''machines'') ''pgtest'')) = [EvDialer ''acme'' (Inr 0)]"
  using version_check_failure_aborts [of "tooOld ''nomad''" "''pgtest''"
      "fst (runRestart (tooOld ''nomad'') ''pgtest'')" "snd (runRestart (tooOld ''nomad'') ''pgtest'')"
      "EvHasRequiredVersionOnNomad (Some (Err ''image is too old'' None))" "Err ''image is too old'' None"]
    version_check_failure_aborts [of "tooOld ''machines''" "''pgtest''"
      "fst (runRestart (tooOld ''machines'') ''pgtest'')" "snd (runRestart (tooOld ''machines'') ''pgtest'')"
      "EvHasRequiredVersionOnMachines nodeA (Some (Err ''image is too old'' None))" "Err ''image is too old'' None"]
  by (simp add: run_tooOld_nomad run_tooOld_machines)

text \<open>
  C1 as stated fails on the machines path: the version check of this run fails after the
  tunnel with handle 0 has been established.
\<close>

theorem version_check_after_tunnel:
  "runRestart (tooOld ''machines'') ''pgtest'' =
     (Some (Err ''image is too old'' None),
      [EvGetAppCompact ''pgtest'' (Inr (demoApp ''machines'')),
       EvAgentEstablish (Inr 0), EvDialer ''acme'' (Inr 0), EvFetchLeader 0 (Inr nodeA),
       EvHasRequiredVersionOnMachines nodeA (Some (Err ''image is too old'' None))])"
  by (rule run_tooOld_machines)

text \<open>
  C2, as amended. A run establishes at most two tunnels, whatever the number of nodes, and
  at most one on the nomad path. Every restart command of a run goes through the tunnel
  that was established last, and no tunnel is established once the first restart command
  has been sent. On the nomad path no tunnel precedes the version check. On the machines
  path exactly one tunnel precedes the version check, and the leader is fetched through
  it. From the version check on at most one tunnel is established: no lease is acquired
  after it, and in a run that listed its machines one lease per listed machine has been
  granted by then. Between any two tunnels of a run lies the version check.
\<close>

theorem tunnels_per_run:
  assumes "runRestart env appName = (res, tr)"
  shows "length (filter isDialer tr) \<le> 2 \<and>
    (\<forall>nid address d r. EvRestartNodePG nid address d r \<in> set tr \<longrightarrow>
       (\<exists>slug. last (filter isDialer tr) = EvDialer slug (Inr d))) \<and>
    (\<forall>i j. i < j \<and> j < length tr \<and> isRestart (tr ! i) \<longrightarrow> \<not> isDialer (tr ! j)) \<and>
    (\<forall>app. EvGetAppCompact appName (Inr app) \<in> set tr \<and> PlatformVersion app = ''nomad'' \<longrightarrow>
       length (filter isDialer tr) \<le> 1) \<and>
    (\<forall>r. EvHasRequiredVersionOnNomad r \<in> set tr \<longrightarrow>
       filter isDialer (takeWhile (\<lambda>e. \<not> isVersionCheck e) tr) = []) \<and>
    (\<forall>leader r. EvHasRequiredVersionOnMachines leader r \<in> set tr \<longrightarrow>
       (\<exists>slug d. filter isDialer (takeWhile (\<lambda>e. \<not> isVersionCheck e) tr) = [EvDialer slug (Inr d)] \<and>
          EvFetchLeader d (Inr leader) \<in> set (takeWhile (\<lambda>e. \<not> isVersionCheck e) tr))) \<and>
    length (filter isDialer (dropWhile (\<lambda>e. \<not> isVersionCheck e) tr)) \<le> 1 \<and>
    (\<forall>k j l. k < j \<and> j < l \<and> l < length tr \<and> isVersionCheck (tr ! k) \<and> isDialer (tr ! j) \<longrightarrow>
       \<not> isLease (tr ! l)) \<and>
    (\<forall>k j s out. k < j \<and> j < length tr \<and> isVersionCheck (tr ! k) \<and> isDialer (tr ! j) \<and>
         EvList s (Inr out) \<in> set tr \<longrightarrow>
       (\<exists>nonces. length nonces = length out \<and>
          filter isLease tr =
            map2 (\<lambda>machine nonce. EvGetLease (ID machine) 40 (Inr nonce)) out nonces)) \<and>
    (\<forall>i j. i < j \<and> j < length tr \<and> isDialer (tr ! i) \<and> isDialer (tr ! j) \<longrightarrow>
       (\<exists>k. i < k \<and> k < j \<and> isVersionCheck (tr ! k)))"
proof -
  let ?after = "dropWhile (\<lambda>e. \<not> isVersionCheck e) tr"
  let ?before = "takeWhile (\<lambda>e. \<not> isVersionCheck e) tr"
  from assms(1) have "runTrace env appName res tr" by (rule runRestart_trace)
  then have shape: "length (filter isDialer tr) \<le> 2 \<and>
    (\<forall>nid address d r. EvRestartNodePG nid address d r \<in> set tr \<longrightarrow>
       (\<exists>slug. last (filter isDialer tr) = EvDialer slug (Inr d))) \<and>
    filter isDialer (dropWhile (\<lambda>e. \<not> isRestart e) tr) = [] \<and>
    (\<forall>app. EvGetAppCompact appName (Inr app) \<in> set tr \<and> PlatformVersion app = ''nomad'' \<longrightarrow>
       length (filter isDialer tr) \<le> 1) \<and>
    (\<forall>r. EvHasRequiredVersionOnNomad r \<in> set tr \<longrightarrow> filter isDialer ?before = []) \<and>
    (\<forall>leader r. EvHasRequiredVersionOnMachines leader r \<in> set tr \<longrightarrow>
       (\<exists>slug d. filter isDialer ?before = [EvDialer slug (Inr d)] \<and>
          EvFetchLeader d (Inr leader) \<in> set ?before)) \<and>
    length (filter isDialer ?before) \<le> 1 \<and>
    length (filter isDialer ?after) \<le> 1 \<and>
    filter isLease (dropWhile (\<lambda>e. \<not> isDialer e) ?after) = [] \<and>
    (\<forall>s out. filter isDialer ?after \<noteq> [] \<and> EvList s (Inr out) \<in> set tr \<longrightarrow>
       (\<exists>nonces. length nonces = length out \<and> filter isLease tr = leaseEvents out nonces))"
  proof (cases rule: runTrace.cases)
    case (rt_nomad app E)
    have g: "EvGetAppCompact appName (Inr app') \<notin> set E" for app'
      using rt_nomad(3) by (cases rule: nomadTrace.cases) (auto simp: tunnel_def complete_def)
    have v: "EvHasRequiredVersionOnMachines leader r \<notin> set E" for leader r
      using nomadTrace_kinds(1) [OF rt_nomad(3)] by fastforce
    have l: "EvList s out \<notin> set E" for s out
      using nomadTrace_kinds(3) [OF rt_nomad(3)] by blast
    from rt_nomad nomadTrace_tunnel [OF rt_nomad(3)] nomadTrace_leases [OF rt_nomad(3)] g v l
    show ?thesis by (auto simp: filter_dropWhile_empty)
  next
    case (rt_machines app E a d leader)
    have g: "EvGetAppCompact appName (Inr app') \<notin> set E" for app'
      using rt_machines(3)
      by (cases rule: machinesTrace.cases)
         (auto simp: listed_def tunnel_def complete_def dest: in_leaseEvents)
    have v: "EvHasRequiredVersionOnNomad r \<notin> set E" for r
      using machinesTrace_kinds(1) [OF rt_machines(3)] by fastforce
    have w: "EvHasRequiredVersionOnMachines leader' r \<notin> set E" for leader' r
      using machinesTrace_kinds(1) [OF rt_machines(3)] by fastforce
    from rt_machines machinesTrace_tunnel [OF rt_machines(3)]
      machinesTrace_second_tunnel [OF rt_machines(3)] g v w
    show ?thesis by (auto simp: leaderChecked_def)
  qed (auto simp: leaderChecked_def)
  have a: "\<forall>i j. i < j \<and> j < length tr \<and> isRestart (tr ! i) \<longrightarrow> \<not> isDialer (tr ! j)"
    using shape after_first [of isDialer isRestart tr] by blast
  have b: "\<forall>k j l. k < j \<and> j < l \<and> l < length tr \<and> isVersionCheck (tr ! k) \<and> isDialer (tr ! j) \<longrightarrow>
       \<not> isLease (tr ! l)"
    using shape after_both [of isLease isDialer isVersionCheck tr] by (meson less_imp_le)
  have c: "\<forall>k j s out. k < j \<and> j < length tr \<and> isVersionCheck (tr ! k) \<and> isDialer (tr ! j) \<and>
         EvList s (Inr out) \<in> set tr \<longrightarrow>
       (\<exists>nonces. length nonces = length out \<and>
          filter isLease tr =
            map2 (\<lambda>machine nonce. EvGetLease (ID machine) 40 (Inr nonce)) out nonces)"
  proof (intro allI impI)
    fix k j s out
    assume h: "k < j \<and> j < length tr \<and> isVersionCheck (tr ! k) \<and> isDialer (tr ! j) \<and>
         EvList s (Inr out) \<in> set tr"
    then have "tr ! j \<in> set ?after"
      using in_dropWhile [of k j tr isVersionCheck] by simp
    with h have "filter isDialer ?after \<noteq> []" unfolding filter_empty_conv by blast
    with h shape show "\<exists>nonces. length nonces = length out \<and>
          filter isLease tr =
            map2 (\<lambda>machine nonce. EvGetLease (ID machine) 40 (Inr nonce)) out nonces"
      unfolding leaseEvents_def by blast
  qed
  have d: "\<forall>i j. i < j \<and> j < length tr \<and> isDialer (tr ! i) \<and> isDialer (tr ! j) \<longrightarrow>
       (\<exists>k. i < k \<and> k < j \<and> isVersionCheck (tr ! k))"
  proof (intro allI impI)
    fix i j
    assume h: "i < j \<and> j < length tr \<and> isDialer (tr ! i) \<and> isDialer (tr ! j)"
    have n: "\<And>e. isDialer e \<Longrightarrow> \<not> isVersionCheck e" by (case_tac e) simp_all
    from shape have "length (filter isDialer ?before) \<le> 1" "length (filter isDialer ?after) \<le> 1"
      by simp_all
    from between_two [of isDialer isVersionCheck tr i j, OF this _ _ _ _ n] h
    show "\<exists>k. i < k \<and> k < j \<and> isVersionCheck (tr ! k)" by simp
  qed
  from shape a b c d show ?thesis by blast
qed

text \<open>
  The amended C2 on a machines run and on a nomad run of the cluster \<open>pgtest\<close>.
\<close>

theorem tunnels_per_run_witness:
  "EvRestartNodePG ''B'' ''[fdaa::b]'' 1 None \<in> set (snd (runRestart (demoEnv ''machines'') ''pgtest'')) \<and>
   last (filter isDialer (snd (runRestart (demoEnv ''machines'') ''pgtest''))) = EvDialer ''acme'' (Inr 1) \<and>
   (15::nat) < 17 \<and> 17 < length (snd (runRestart (demoEnv ''machines'') ''pgtest'')) \<and>
   isRestart (snd (runRestart (demoEnv ''machines'') ''pgtest'') ! 15) \<and>
   \<not> isDialer (snd (runRestart (demoEnv ''machines'') ''pgtest'') ! 17) \<and>
   length (filter isDialer (snd (runRestart (demoEnv ''machines'') ''pgtest''))) \<le> 2 \<and>
   EvHasRequiredVersionOnMachines nodeA None \<in> set (snd (runRestart (demoEnv ''machines'') ''pgtest'')) \<and>
   filter isDialer (takeWhile (\<lambda>e. \<not> isVersionCheck e) (snd (runRestart (demoEnv ''machines'') ''pgtest'')))
     = [EvDialer ''acme'' (Inr 0)] \<and>
   (2::nat) < 4 \<and> (4::nat) < 12 \<and> (12::nat) < 15 \<and>
   isDialer (snd (runRestart (demoEnv ''machines'') ''pgtest'') ! 2) \<and>
   isVersionCheck (snd (runRestart (demoEnv ''machines'') ''pgtest'') ! 4) \<and>
   isDialer (snd (runRestart (demoEnv ''machines'') ''pgtest'') ! 12) \<and>
   \<not> isLease (snd (runRestart (demoEnv ''machines'') ''pgtest'') ! 15) \<and>
   EvList ''started'' (Inr [nodeA, nodeB, nodeC]) \<in> set (snd (runRestart (demoEnv ''machines'') ''pgtest'')) \<and>
   filter isLease (snd (runRestart (demoEnv ''machines'') ''pgtest'')) =
     map2 (\<lambda>machine nonce. EvGetLease (ID machine) 40 (Inr nonce)) [nodeA, nodeB, nodeC]
       [''lease-A'', ''lease-B'', ''lease-C''] \<and>
   EvGetAppCompact ''pgtest'' (Inr (demoApp ''nomad'')) \<in> set (snd (runRestart (demoEnv ''nomad'') ''pgtest'')) \<and>
   PlatformVersion (demoApp ''nomad'') = ''nomad'' \<and>
   length (filter isDialer (snd (runRestart (demoEnv ''nomad'') ''pgtest''))) \<le> 1 \<and>
   EvHasRequiredVersionOnNomad None \<in> set (snd (runRestart (demoEnv ''nomad'') ''pgtest'')) \<and>
   filter isDialer (takeWhile (\<lambda>e. \<not> isVersionCheck e) (snd (runRestart (demoEnv ''nomad'') ''pgtest''))) = []"
  using tunnels_per_run [of "demoEnv ''machines''" "''pgtest''"
      "fst (runRestart (demoEnv ''machines'') ''pgtest'')" "snd (runRestart (demoEnv ''machines'') ''pgtest'')"]
    tunnels_per_run [of "demoEnv ''nomad''" "''pgtest''"
      "fst (runRestart (demoEnv ''nomad'') ''pgtest'')" "snd (runRestart (demoEnv ''nomad'') ''pgtest'')"]
  by (simp add: run_demo_machines run_demo_nomad demoApp_def nodeA_def nodeB_def nodeC_def)

text \<open>
  C2 as stated fails on the machines path: this successful run establishes the tunnel 0
  before the version check and the tunnel 1 before the restart loop, and its three restart
  commands, in whatever order, go through the tunnel 1.
\<close>

theorem two_tunnels_in_machines_run:
  "fst (runRestart (demoEnv ''machines'') ''pgtest'') = None \<and>
   filter isDialer (snd (runRestart (demoEnv ''machines'') ''pgtest'')) =
     [EvDialer ''acme'' (Inr 0), EvDialer ''acme'' (Inr 1)] \<and>
   set (filter isRestart (snd (runRestart (demoEnv ''machines'') ''pgtest''))) =
     {EvRestartNodePG ''A'' ''[fdaa::a]'' 1 None, EvRestartNodePG ''B'' ''[fdaa::b]'' 1 None,
      EvRestartNodePG ''C'' ''[fdaa::c]'' 1 None}"
  by (auto simp: run_demo_machines)

text \<open>
  C3. No lease is acquired after a restart command has been sent. When a run that listed
  the machines \<open>out\<close> sends a restart command at all, its lease acquisitions are
  exactly one granted lease per listed machine, in the order of the listing. When the
  acquisition of a lease fails, the run returns the error
  \<open>failed to obtain lease: CAUSE\<close> and sends no restart command to any node.
\<close>

theorem leases_before_restarts:
  assumes "runRestart env appName = (res, tr)"
  shows "(\<forall>i j. i < j \<and> j < length tr \<and> isRestart (tr ! i) \<longrightarrow> \<not> isLease (tr ! j)) \<and>
    (\<forall>s out. EvList s (Inr out) \<in> set tr \<and> filter isRestart tr \<noteq> [] \<longrightarrow>
       (\<exists>nonces. length nonces = length out \<and>
          filter isLease tr =
            map2 (\<lambda>machine nonce. EvGetLease (ID machine) 40 (Inr nonce)) out nonces)) \<and>
    (\<forall>mid ttl c. EvGetLease mid ttl (Inl c) \<in> set tr \<longrightarrow>
       res = Some (Errorf_w ''failed to obtain lease: '' c) \<and> filter isRestart tr = [])"
proof -
  from assms(1) have "runTrace env appName res tr" by (rule runRestart_trace)
  then have "filter isLease (dropWhile (\<lambda>e. \<not> isRestart e) tr) = [] \<and>
    (\<forall>s out. EvList s (Inr out) \<in> set tr \<and> filter isRestart tr \<noteq> [] \<longrightarrow>
       (\<exists>nonces. length nonces = length out \<and> filter isLease tr = leaseEvents out nonces)) \<and>
    (\<forall>mid ttl c. EvGetLease mid ttl (Inl c) \<in> set tr \<longrightarrow>
       res = Some (Errorf_w ''failed to obtain lease: '' c) \<and> filter isRestart tr = [])"
  proof (cases rule: runTrace.cases)
    case (rt_nomad app E)
    from nomadTrace_leases [OF rt_nomad(3)] have n: "filter isLease E = []" .
    then have "\<And>mid ttl c. EvGetLease mid ttl (Inl c) \<notin> set E"
      by (auto simp: filter_empty_conv)
    moreover have "\<And>s out. EvList s (Inr out) \<notin> set E"
      using nomadTrace_kinds(3) [OF rt_nomad(3)] by blast
    ultimately show ?thesis using rt_nomad n by (simp add: filter_dropWhile_empty)
  next
    case (rt_machines app E a d leader)
    from rt_machines machinesTrace_leases [OF rt_machines(3)] show ?thesis
      by (auto simp: leaderChecked_def)
  qed (auto simp: leaderChecked_def)
  then show ?thesis using after_first [of isLease isRestart tr] unfolding leaseEvents_def by blast
qed

text \<open>
  C3 on the cluster \<open>pgtest\<close>: a run where the three leases are granted, and a run
  where the lease of B is denied after the lease of A was granted.
\<close>

theorem leases_before_restarts_witness:
  "(15::nat) < 17 \<and> 17 < length (snd (runRestart (demoEnv ''machines'') ''pgtest'')) \<and>
   isRestart (snd (runRestart (demoEnv ''machines'') ''pgtest'') ! 15) \<and>
   \<not> isLease (snd (runRestart (demoEnv ''machines'') ''pgtest'') ! 17) \<and>
   EvList ''started'' (Inr [nodeA, nodeB, nodeC]) \<in> set (snd (runRestart (demoEnv ''machines'') ''pgtest'')) \<and>
   filter isRestart (snd (runRestart (demoEnv ''machines'') ''pgtest'')) \<noteq> [] \<and>
   filter isLease (snd (runRestart (demoEnv ''machines'') ''pgtest'')) =
     map2 (\<lambda>machine nonce. EvGetLease (ID machine) 40 (Inr nonce)) [nodeA, nodeB, nodeC]
       [''lease-A'', ''lease-B'', ''lease-C''] \<and>
   EvGetLease ''B'' 40 (Inl (Err ''lease is held'' None)) \<in> set (snd (runRestart (leaseDenied ''B'') ''pgtest'')) \<and>
   fst (runRestart (leaseDenied ''B'') ''pgtest'') =
     Some (Errorf_w ''failed to obtain lease: '' (Err ''lease is held'' None)) \<and>
   filter isRestart (snd (runRestart (leaseDenied ''B'') ''pgtest'')) = []"
  using leases_before_restarts [of "demoEnv ''machines''" "''pgtest''"
      "fst (runRestart (demoEnv ''machines'') ''pgtest'')" "snd (runRestart (demoEnv ''machines'') ''pgtest'')"]
    leases_before_restarts [of "leaseDenied ''B''" "''pgtest''"
      "fst (runRestart (leaseDenied ''B'') ''pgtest'')" "snd (runRestart (leaseDenied ''B'') ''pgtest'')"]
  by (simp add: run_demo_machines run_leaseDenied_B Errorf_w_def nodeA_def nodeB_def nodeC_def)

text \<open>
  C4. When the restart command of a node fails, it is the last call of the run, so no
  restart command is sent to any later node, and the run returns the error
  \<open>failed to restart postgres on node: CAUSE\<close>. The statement is about
  \<open>runRestart\<close>, hence about both paths.
\<close>

theorem restart_failure_stops_run:
  assumes "runRestart env appName = (res, tr)"
    and "tr = pre @ EvRestartNodePG nid address d (Some c) # post"
  shows "post = [] \<and> res = Some (Errorf_w ''failed to restart postgres on node: '' c)"
proof -
  from assms(1) have "runTrace env appName res tr" by (rule runRestart_trace)
  from runTrace_terminal [OF this]
  have b: "\<forall>x\<in>set (butlast tr). \<not> failed x \<noteq> None"
    and l: "failed (last tr) \<noteq> None \<longrightarrow> res = surfaced (last tr)" by simp_all
  from only_last [OF b assms(2)] have "post = []" "last tr = EvRestartNodePG nid address d (Some c)"
    by simp_all
  with l show ?thesis by simp
qed

text \<open>
  C4 on the cluster \<open>pgtest\<close> with the node B unreachable: on the nomad path the
  nodes are visited in the order A, B, C and C gets no command; on the machines path the
  example visits them in the order C, B, A and A gets no command.
\<close>

theorem restart_failure_stops_run_witness:
  "snd (runRestart (nodeDown ''nomad'' ''[fdaa::b]'') ''pgtest'') =
     butlast (snd (runRestart (nodeDown ''nomad'' ''[fdaa::b]'') ''pgtest'')) @
       EvRestartNodePG ''B'' ''[fdaa::b]'' 0 (Some (Err ''unreachable'' None)) # [] \<and>
   fst (runRestart (nodeDown ''nomad'' ''[fdaa::b]'') ''pgtest'') =
     Some (Errorf_w ''failed to restart postgres on node: '' (Err ''unreachable'' None)) \<and>
   restarted (snd (runRestart (nodeDown ''nomad'' ''[fdaa::b]'') ''pgtest'')) = [''A'', ''B''] \<and>
   snd (runRestart (nodeDown ''machines'' ''[fdaa::b]'') ''pgtest'') =
     butlast (snd (runRestart (nodeDown ''machines'' ''[fdaa::b]'') ''pgtest'')) @
       EvRestartNodePG ''B'' ''[fdaa::b]'' 1 (Some (Err ''unreachable'' None)) # [] \<and>
   fst (runRestart (nodeDown ''machines'' ''[fdaa::b]'') ''pgtest'') =
     Some (Errorf_w ''failed to restart postgres on node: '' (Err ''unreachable'' None)) \<and>
   restarted (snd (runRestart (nodeDown ''machines'' ''[fdaa::b]'') ''pgtest'')) = [''C'', ''B'']"
  using restart_failure_stops_run [of "nodeDown ''nomad'' ''[fdaa::b]''" "''pgtest''"
      "fst (runRestart (nodeDown ''nomad'' ''[fdaa::b]'') ''pgtest'')"
      "snd (runRestart (nodeDown ''nomad'' ''[fdaa::b]'') ''pgtest'')"
      "butlast (snd (runRestart (nodeDown ''nomad'' ''[fdaa::b]'') ''pgtest''))"
      "''B''" "''[fdaa::b]''" 0 "Err ''unreachable'' None" "[]"]
    restart_failure_stops_run [of "nodeDown ''machines'' ''[fdaa::b]''" "''pgtest''"
      "fst (runRestart (nodeDown ''machines'' ''[fdaa::b]'') ''pgtest'')"
      "snd (runRestart (nodeDown ''machines'' ''[fdaa::b]'') ''pgtest'')"
      "butlast (snd (runRestart (nodeDown ''machines'' ''[fdaa::b]'') ''pgtest''))"
      "''B''" "''[fdaa::b]''" 1 "Err ''unreachable'' None" "[]"]
  by (simp add: run_nodeDown_nomad_B run_nodeDown_machines_B Errorf_w_def)

text \<open>
  C5, as amended. When the membership of the cluster is empty, the run returns the error
  \<open>no vms found\<close> (nomad) or \<open>no machines found\<close> (machines), acquires no lease and
  sends no restart command. On the nomad path no tunnel is established and the agent is
  not contacted. On the machines path the run has established exactly one tunnel, before
  the listing of the machines, and only one line of output follows the listing.
\<close>

theorem empty_membership_aborts:
  assumes "runRestart env appName = (res, tr)"
  shows "(EvGetAppStatus n (Inr []) \<in> set tr \<longrightarrow>
            res = Some (Errorf ''no vms found'') \<and> last tr = EvGetAppStatus n (Inr []) \<and>
            filter isLease tr = [] \<and> filter isRestart tr = [] \<and>
            filter isDialer tr = [] \<and> filter isAgent tr = []) \<and>
         (EvList s (Inr []) \<in> set tr \<longrightarrow>
            res = Some (Errorf ''no machines found'') \<and>
            (\<exists>pre. tr = pre @ [EvList s (Inr []),
                EvPrint (''Acquiring lease on postgres cluster'' @ [CHR 0x0A])] \<and>
              filter isDialer pre \<noteq> []) \<and>
            filter isLease tr = [] \<and> filter isRestart tr = [] \<and>
            length (filter isDialer tr) = 1)"
proof -
  from assms(1) have "runTrace env appName res tr" by (rule runRestart_trace)
  then show ?thesis
  proof (cases rule: runTrace.cases)
    case (rt_nomad app E)
    have l: "EvList s (Inr []) \<notin> set E" using nomadTrace_kinds(3) [OF rt_nomad(3)] by blast
    show ?thesis
    proof (cases "EvGetAppStatus n (Inr []) \<in> set E")
      case True
      from nomadTrace_empty [OF rt_nomad(3) True] rt_nomad l show ?thesis by simp
    next
      case False
      with rt_nomad l show ?thesis by simp
    qed
  next
    case (rt_machines app E a d leader)
    have l: "EvGetAppStatus n (Inr []) \<notin> set E" using machinesTrace_kinds(2) [OF rt_machines(3)] by blast
    show ?thesis
    proof (cases "EvList s (Inr []) \<in> set E")
      case True
      from machinesTrace_empty [OF rt_machines(3) True] rt_machines l show ?thesis
        by (simp add: leaderChecked_def listed_def)
    next
      case False
      with rt_machines l show ?thesis by (simp add: leaderChecked_def)
    qed
  qed (simp_all add: leaderChecked_def)
qed

text \<open>
  The amended C5 on an empty cluster, on both paths.
\<close>

theorem empty_membership_aborts_witness:
  "EvGetAppStatus ''pgtest'' (Inr []) \<in> set (snd (runRestart (emptyCluster ''nomad'') ''pgtest'')) \<and>
   fst (runRestart (emptyCluster ''nomad'') ''pgtest'') = Some (Errorf ''no vms found'') \<and>
   filter isDialer (snd (runRestart (emptyCluster ''nomad'') ''pgtest'')) = [] \<and>
   EvList ''started'' (Inr []) \<in> set (snd (runRestart (emptyCluster ''machines'') ''pgtest'')) \<and>
   fst (runRestart (emptyCluster ''machines'') ''pgtest'') = Some (Errorf ''no machines found'') \<and>
   filter isLease (snd (runRestart (emptyCluster ''machines'') ''pgtest'')) = [] \<and>
   length (filter isDialer (snd (runRestart (emptyCluster ''machines'') ''pgtest''))) = 1"
  using empty_membership_aborts [of "emptyCluster ''nomad''" "''pgtest''"
      "fst (runRestart (emptyCluster ''nomad'') ''pgtest'')"
      "snd (runRestart (emptyCluster ''nomad'') ''pgtest'')" "''pgtest''" "''started''"]
    empty_membership_aborts [of "emptyCluster ''machines''" "''pgtest''"
      "fst (runRestart (emptyCluster ''machines'') ''pgtest'')"
      "snd (runRestart (emptyCluster ''machines'') ''pgtest'')" "''pgtest''" "''started''"]
  by (simp add: run_empty_nomad run_empty_machines Errorf_def)

text \<open>
  C5 as stated fails on the machines path: the tunnel 0 is established before the empty
  listing of the machines is seen.
\<close>

theorem empty_machines_after_tunnel:
  "runRestart (emptyCluster ''machines'') ''pgtest'' =
     (Some (Err ''no machines found'' None),
      [EvGetAppCompact ''pgtest'' (Inr (demoApp ''machines'')),
       EvAgentEstablish (Inr 0), EvDialer ''acme'' (Inr 0), EvFetchLeader 0 (Inr nodeA),
       EvHasRequiredVersionOnMachines nodeA None, EvEstablishForApp None,
       EvList ''started'' (Inr []),
       EvPrint (''Acquiring lease on postgres cluster'' @ [CHR 0x0A])])"
  by (rule run_empty_machines)

text \<open>
  C6, as amended. In a successful run that listed the machines \<open>out\<close> and whose
  lease nonces are pairwise distinct, one lease is granted per listed machine and as many
  restart commands are sent as machines were listed; the nodes restarted are the listed
  machines, each as often as it is listed, so with distinct machine IDs no node is
  restarted twice.
\<close>

theorem distinct_tokens_restart_all:
  assumes "range_visits_once env" and "runRestart env appName = (None, tr)"
    and "EvList s (Inr out) \<in> set tr" and "distinct (noncesOf tr)"
  shows "length (noncesOf tr) = length out \<and>
    filter isLease tr =
      map2 (\<lambda>machine nonce. EvGetLease (ID machine) 40 (Inr nonce)) out (noncesOf tr) \<and>
    length (filter isRestart tr) = length out \<and>
    mset (restarted tr) = mset (map ID out) \<and>
    (distinct (map ID out) \<longrightarrow> distinct (restarted tr))"
proof -
  from machines_view [OF assms(2,3)] obtain app pre E where
    E: "machinesTrace env app None E" and tr: "tr = pre @ E" and l: "EvList s (Inr out) \<in> set E"
    and pre: "noncesOf pre = []" "restarted pre = []" "filter isLease pre = []" by blast
  from tr pre have eq: "noncesOf tr = noncesOf E" "restarted tr = restarted E"
    "filter isLease tr = filter isLease E" by simp_all
  from machinesTrace_restarted [OF E l] eq have
    n: "length (noncesOf tr) = length out"
    and ls: "filter isLease tr = leaseEvents out (noncesOf tr)"
    and r: "restarted tr = map (ID \<circ> snd) (mapRange env (putAll (noncesOf tr) out []))"
    by simp_all
  from putAll_fresh [OF n, of "[]"] assms(4)
  have m: "putAll (noncesOf tr) out [] = zip (noncesOf tr) out" by simp
  from r have "mset (restarted tr) = mset (map (ID \<circ> snd) (zip (noncesOf tr) out))"
    by (simp only: range_mset [OF assms(1)] m)
  also have "map (ID \<circ> snd) (zip (noncesOf tr) out) = map ID (map snd (zip (noncesOf tr) out))"
    by simp
  also have "map snd (zip (noncesOf tr) out) = out" using n by simp
  finally have ms: "mset (restarted tr) = mset (map ID out)" .
  then have "length (restarted tr) = length out" by (metis length_map size_mset)
  then have c: "length (filter isRestart tr) = length out" by (simp add: restarted_length)
  from ms have "distinct (map ID out) \<longrightarrow> distinct (restarted tr)"
    by (metis mset_eq_imp_distinct_iff)
  with n ls c ms show ?thesis unfolding leaseEvents_def by simp
qed

text \<open>
  The amended C6 on the successful machines run of the cluster \<open>pgtest\<close>.
\<close>

theorem distinct_tokens_restart_all_witness:
  "range_visits_once (demoEnv ''machines'') \<and>
   runRestart (demoEnv ''machines'') ''pgtest'' = (None, snd (runRestart (demoEnv ''machines'') ''pgtest'')) \<and>
   EvList ''started'' (Inr [nodeA, nodeB, nodeC]) \<in> set (snd (runRestart (demoEnv ''machines'') ''pgtest'')) \<and>
   distinct (noncesOf (snd (runRestart (demoEnv ''machines'') ''pgtest''))) \<and>
   distinct (map ID [nodeA, nodeB, nodeC]) \<and>
   length (filter isLease (snd (runRestart (demoEnv ''machines'') ''pgtest''))) = 3 \<and>
   length (filter isRestart (snd (runRestart (demoEnv ''machines'') ''pgtest''))) = 3 \<and>
   mset (restarted (snd (runRestart (demoEnv ''machines'') ''pgtest''))) = mset [''A'', ''B'', ''C''] \<and>
   distinct (restarted (snd (runRestart (demoEnv ''machines'') ''pgtest'')))"
  using distinct_tokens_restart_all [of "demoEnv ''machines''" "''pgtest''"
      "snd (runRestart (demoEnv ''machines'') ''pgtest'')" "''started''" "[nodeA, nodeB, nodeC]"]
  by (simp add: range_demo run_demo_machines nodeA_def nodeB_def nodeC_def)

text \<open>
  C6 as stated fails when two leases carry the same nonce: this run lists three machines,
  is granted three leases and succeeds, but sends two restart commands, none of them to A.
\<close>

theorem shared_token_skips_machine:
  "fst (runRestart sharedNonce ''pgtest'') = None \<and>
   EvList ''started'' (Inr [nodeA, nodeB, nodeC]) \<in> set (snd (runRestart sharedNonce ''pgtest'')) \<and>
   filter isLease (snd (runRestart sharedNonce ''pgtest'')) =
     [EvGetLease ''A'' 40 (Inr ''lease-1''), EvGetLease ''B'' 40 (Inr ''lease-1''),
      EvGetLease ''C'' 40 (Inr ''lease-2'')] \<and>
   filter isRestart (snd (runRestart sharedNonce ''pgtest'')) =
     [EvRestartNodePG ''C'' ''[fdaa::c]'' 1 None, EvRestartNodePG ''B'' ''[fdaa::b]'' 1 None]"
  by (simp add: run_sharedNonce)

text \<open>
  C7, as amended. A call that fails is the last call of the run, and the run returns the
  error that the source builds from the cause (\<open>surfaced\<close>), whose text ends with the
  text of the cause. For a lease it is \<open>failed to obtain lease: CAUSE\<close>, for a restart
  \<open>failed to restart postgres on node: CAUSE\<close>; both wrap the cause and neither holds
  the node ID.
\<close>

theorem failed_call_ends_run:
  assumes "runRestart env appName = (res, tr)" and "tr = pre @ e # post" and "failed e = Some c"
  shows "post = [] \<and> res = surfaced e \<and> (\<exists>p w. res = Some (Err (p @ msg c) w)) \<and>
    (isLease e \<longrightarrow> res = Some (Errorf_w ''failed to obtain lease: '' c)) \<and>
    (isRestart e \<longrightarrow> res = Some (Errorf_w ''failed to restart postgres on node: '' c))"
proof -
  from assms(1) have "runTrace env appName res tr" by (rule runRestart_trace)
  from runTrace_terminal [OF this]
  have b: "\<forall>x\<in>set (butlast tr). \<not> failed x \<noteq> None"
    and l: "failed (last tr) \<noteq> None \<longrightarrow> res = surfaced (last tr)" by simp_all
  from assms(3) have "failed e \<noteq> None" by simp
  from only_last [OF b assms(2) this] have p: "post = []" and "last tr = e" by simp_all
  with l assms(3) have r: "res = surfaced e" by simp
  from surfaced_text [OF assms(3)] r have t: "\<exists>p w. res = Some (Err (p @ msg c) w)" by simp
  have "isLease e \<longrightarrow> res = Some (Errorf_w ''failed to obtain lease: '' c)"
    using assms(3) r by (cases e) (auto elim: errOf.elims)
  moreover have "isRestart e \<longrightarrow> res = Some (Errorf_w ''failed to restart postgres on node: '' c)"
    using assms(3) r by (cases e) auto
  ultimately show ?thesis using p r t by blast
qed

text \<open>
  The amended C7 on a denied lease and on an unreachable node.
\<close>

theorem failed_call_ends_run_witness:
  "snd (runRestart (leaseDenied ''B'') ''pgtest'') =
     butlast (snd (runRestart (leaseDenied ''B'') ''pgtest'')) @
       EvGetLease ''B'' 40 (Inl (Err ''lease is held'' None)) # [] \<and>
   failed (EvGetLease ''B'' 40 (Inl (Err ''lease is held'' None))) = Some (Err ''lease is held'' None) \<and>
   isLease (EvGetLease ''B'' 40 (Inl (Err ''lease is held'' None))) \<and>
   fst (runRestart (leaseDenied ''B'') ''pgtest'') =
     Some (Errorf_w ''failed to obtain lease: '' (Err ''lease is held'' None)) \<and>
   snd (runRestart (nodeDown ''nomad'' ''[fdaa::b]'') ''pgtest'') =
     butlast (snd (runRestart (nodeDown ''nomad'' ''[fdaa::b]'') ''pgtest'')) @
       EvRestartNodePG ''B'' ''[fdaa::b]'' 0 (Some (Err ''unreachable'' None)) # [] \<and>
   failed (EvRestartNodePG ''B'' ''[fdaa::b]'' 0 (Some (Err ''unreachable'' None))) = Some (Err ''unreachable'' None) \<and>
   isRestart (EvRestartNodePG ''B'' ''[fdaa::b]'' 0 (Some (Err ''unreachable'' None))) \<and>
   fst (runRestart (nodeDown ''nomad'' ''[fdaa::b]'') ''pgtest'') =
     Some (Errorf_w ''failed to restart postgres on node: '' (Err ''unreachable'' None))"
  using failed_call_ends_run [of "leaseDenied ''B''" "''pgtest''"
      "fst (runRestart (leaseDenied ''B'') ''pgtest'')" "snd (runRestart (leaseDenied ''B'') ''pgtest'')"
      "butlast (snd (runRestart (leaseDenied ''B'') ''pgtest''))"
      "EvGetLease ''B'' 40 (Inl (Err ''lease is held'' None))" "[]" "Err ''lease is held'' None"]
    failed_call_ends_run [of "nodeDown ''nomad'' ''[fdaa::b]''" "''pgtest''"
      "fst (runRestart (nodeDown ''nomad'' ''[fdaa::b]'') ''pgtest'')"
      "snd (runRestart (nodeDown ''nomad'' ''[fdaa::b]'') ''pgtest'')"
      "butlast (snd (runRestart (nodeDown ''nomad'' ''[fdaa::b]'') ''pgtest''))"
      "EvRestartNodePG ''B'' ''[fdaa::b]'' 0 (Some (Err ''unreachable'' None))" "[]" "Err ''unreachable'' None"]
  by (simp add: run_leaseDenied_B run_nodeDown_nomad_B Errorf_w_def)

text \<open>
  C7 as stated fails: the error returned does not identify the node. Denying the lease of
  A and denying the lease of B give the same error, and so do an unreachable A and an
  unreachable B.
\<close>

theorem error_does_not_name_node:
  "fst (runRestart (leaseDenied ''A'') ''pgtest'') =
     Some (Err ''failed to obtain lease: lease is held'' (Some (Err ''lease is held'' None))) \<and>
   last (snd (runRestart (leaseDenied ''A'') ''pgtest'')) =
     EvGetLease ''A'' 40 (Inl (Err ''lease is held'' None)) \<and>
   fst (runRestart (leaseDenied ''B'') ''pgtest'') =
     Some (Err ''failed to obtain lease: lease is held'' (Some (Err ''lease is held'' None))) \<and>
   last (snd (runRestart (leaseDenied ''B'') ''pgtest'')) =
     EvGetLease ''B'' 40 (Inl (Err ''lease is held'' None)) \<and>
   fst (runRestart (nodeDown ''nomad'' ''[fdaa::a]'') ''pgtest'') =
     Some (Err ''failed to restart postgres on node: unreachable'' (Some (Err ''unreachable'' None))) \<and>
   last (snd (runRestart (nodeDown ''nomad'' ''[fdaa::a]'') ''pgtest'')) =
     EvRestartNodePG ''A'' ''[fdaa::a]'' 0 (Some (Err ''unreachable'' None)) \<and>
   fst (runRestart (nodeDown ''nomad'' ''[fdaa::b]'') ''pgtest'') =
     Some (Err ''failed to restart postgres on node: unreachable'' (Some (Err ''unreachable'' None))) \<and>
   last (snd (runRestart (nodeDown ''nomad'' ''[fdaa::b]'') ''pgtest'')) =
     EvRestartNodePG ''B'' ''[fdaa::b]'' 0 (Some (Err ''unreachable'' None))"
  by (simp add: run_leaseDenied_A run_leaseDenied_B run_nodeDown_nomad_A run_nodeDown_nomad_B)

text \<open>
  C8. When the application resolved is not a Postgres cluster, the run ends with the
  error \<open>app NAME is not a Postgres app\<close>, and the lookup of the application is the only
  call of the run: no version check, no lease, no tunnel and no restart command.
\<close>

theorem not_postgres_aborts:
  assumes "GetAppCompact env [] appName = Inr app" and "\<not> IsPostgresApp app"
  shows "runRestart env appName =
    (Some (Errorf (''app '' @ Name app @ '' is not a Postgres app'')),
     [EvGetAppCompact appName (Inr app)])"
  using assms by (simp add: runRestart_def Let_def)

theorem not_postgres_aborts_witness:
  "GetAppCompact plainEnv [] ''webapp'' = Inr plainApp \<and> \<not> IsPostgresApp plainApp \<and>
   runRestart plainEnv ''webapp'' =
     (Some (Err ''app webapp is not a Postgres app'' None),
      [EvGetAppCompact ''webapp'' (Inr plainApp)])"
  using not_postgres_aborts [of plainEnv "''webapp''" plainApp]
  by (simp add: plainEnv_def plainApp_def demo_defs Errorf_def)

text \<open>
  C9, as amended. For an application that resolved, is a Postgres cluster, and whose
  platform version is neither \<open>nomad\<close> nor \<open>machines\<close>, the command returns
  \<open>nil\<close> and the lookup of the application is the only call of the run: no restart
  command, no lease, no tunnel.
\<close>

theorem unknown_platform_is_noop:
  assumes "GetAppCompact env [] appName = Inr app" and "IsPostgresApp app"
    and "PlatformVersion app \<noteq> ''nomad''" and "PlatformVersion app \<noteq> ''machines''"
  shows "runRestart env appName = (None, [EvGetAppCompact appName (Inr app)])"
  using assms by (simp add: runRestart_def Let_def)

theorem unknown_platform_is_noop_witness:
  "GetAppCompact (demoEnv ''detached'') [] ''pgtest'' = Inr (demoApp ''detached'') \<and>
   IsPostgresApp (demoApp ''detached'') \<and>
   PlatformVersion (demoApp ''detached'') \<noteq> ''nomad'' \<and>
   PlatformVersion (demoApp ''detached'') \<noteq> ''machines'' \<and>
   runRestart (demoEnv ''detached'') ''pgtest'' =
     (None, [EvGetAppCompact ''pgtest'' (Inr (demoApp ''detached''))])"
  using unknown_platform_is_noop [of "demoEnv ''detached''" "''pgtest''" "demoApp ''detached''"]
  by (simp add: demo_defs)

text \<open>
  C9 as stated fails for an application that is not a Postgres cluster: on a platform that
  is neither \<open>nomad\<close> nor \<open>machines\<close> the command returns the error of the Postgres
  check, not \<open>nil\<close>.
\<close>

theorem unknown_platform_not_postgres:
  "GetAppCompact strayEnv [] ''webapp'' = Inr strayApp \<and>
   PlatformVersion strayApp = ''detached'' \<and>
   runRestart strayEnv ''webapp'' =
     (Some (Err ''app webapp is not a Postgres app'' None),
      [EvGetAppCompact ''webapp'' (Inr strayApp)])"
  by (simp add: run_defs strayEnv_def strayApp_def demo_defs)



end
